theory Spec2Isabelle
  imports Complex_Main "HOL-Library.Sublist" "HOL-Library.Word"
begin

section \<open>Exceptions\<close>

text \<open>
  A raised exception is a value: \<open>ClientError\<close> is botocore's, \<open>OtherError\<close> any other subclass
  of \<open>Exception\<close>; each carries the text \<open>str(e)\<close>. A computation that may raise has a
  result of type \<open>exn + 'a\<close>, with \<open>Inl\<close> for the exception.
\<close>

datatype exn = ClientError string | OtherError string

fun str_of :: "exn \<Rightarrow> string" where
  "str_of (ClientError m) = m"
| "str_of (OtherError m) = m"

definition and_then :: "exn + 'a \<Rightarrow> ('a \<Rightarrow> exn + 'b) \<Rightarrow> exn + 'b" where
  "and_then m f = (case m of Inl e \<Rightarrow> Inl e | Inr v \<Rightarrow> f v)"

text \<open>\<open>try: body except Exception as e: handler\<close>.\<close>

definition try_except :: "exn + 'a \<Rightarrow> (exn \<Rightarrow> exn + 'a) \<Rightarrow> exn + 'a" where
  "try_except body handler = (case body of Inl e \<Rightarrow> handler e | Inr v \<Rightarrow> Inr v)"

text \<open>\<open>try: body except botocore.exceptions.ClientError as e: handler\<close>.\<close>

definition try_except_client :: "exn + 'a \<Rightarrow> (string \<Rightarrow> exn + 'a) \<Rightarrow> exn + 'a" where
  "try_except_client body handler =
     (case body of Inl (ClientError m) \<Rightarrow> handler m | Inl (OtherError m) \<Rightarrow> Inl (OtherError m)
      | Inr v \<Rightarrow> Inr v)"

section \<open>Python strings\<close>

text \<open>
  A Python \<open>str\<close> is modelled as a \<open>string\<close>, one \<open>char\<close> per code point. The
  character functions below (\<open>lower\<close>, \<open>isspace\<close>, \<open>isupper\<close>, ...) are those of Python on
  ASCII text; on code points above 127 Python consults the Unicode tables, which are not
  modelled, so the embedding speaks about ASCII inputs. The few non-ASCII code points in
  the source's string constants are spelled as their UTF-8 bytes.
\<close>

definition ascii_uppercase :: string where
  "ascii_uppercase = ''ABCDEFGHIJKLMNOPQRSTUVWXYZ''"

definition ascii_lowercase :: string where
  "ascii_lowercase = ''abcdefghijklmnopqrstuvwxyz''"

definition is_upper_c :: "char \<Rightarrow> bool" where
  "is_upper_c c = (c \<in> set ascii_uppercase)"

definition is_lower_c :: "char \<Rightarrow> bool" where
  "is_lower_c c = (c \<in> set ascii_lowercase)"

definition is_digit_c :: "char \<Rightarrow> bool" where
  "is_digit_c c = (c \<in> set ''0123456789'')"

text \<open>\<open>str.isspace\<close> on ASCII: tab, LF, VT, FF, CR, the separators 0x1C-0x1F and space.\<close>

definition is_space_c :: "char \<Rightarrow> bool" where
  "is_space_c c =
     (c \<in> set [CHR 0x09, CHR 0x0A, CHR 0x0B, CHR 0x0C, CHR 0x0D,
                CHR 0x1C, CHR 0x1D, CHR 0x1E, CHR 0x1F, CHR 0x20])"

definition lower_char :: "char \<Rightarrow> char" where
  "lower_char c =
     (case map_of (zip ascii_uppercase ascii_lowercase) c of None \<Rightarrow> c | Some l \<Rightarrow> l)"

definition lower :: "string \<Rightarrow> string" where
  "lower s = map lower_char s"

text \<open>\<open>sub in s\<close>: \<open>sub\<close> occurs in \<open>s\<close> as a contiguous substring.\<close>

definition py_in :: "string \<Rightarrow> string \<Rightarrow> bool" where
  "py_in sub s = sublist sub s"

text \<open>\<open>s.find(sub)\<close>: the index of the first occurrence, or \<open>-1\<close>.\<close>

fun find_from :: "string \<Rightarrow> string \<Rightarrow> nat \<Rightarrow> int" where
  "find_from sub [] i = (if sub = [] then int i else - 1)"
| "find_from sub (c # cs) i =
     (if prefix sub (c # cs) then int i else find_from sub cs (Suc i))"

definition py_find :: "string \<Rightarrow> string \<Rightarrow> int" where
  "py_find s sub = find_from sub s 0"

text \<open>
  \<open>s.replace(old, new)\<close>: every non-overlapping occurrence of \<open>old\<close>, scanning from the
  left, is replaced; an empty \<open>old\<close> matches before every character and at the end.
\<close>

function py_replace :: "string \<Rightarrow> string \<Rightarrow> string \<Rightarrow> string" where
  "py_replace old new [] = (if old = [] then new else [])"
| "py_replace old new (c # cs) =
     (if old = [] then new @ c # py_replace old new cs
      else if prefix old (c # cs) then new @ py_replace old new (drop (length old) (c # cs))
      else c # py_replace old new cs)"
  by pat_completeness auto
termination
  by (relation "measure (\<lambda>(old, new, s). length s)") auto

text \<open>\<open>sep.join(xs)\<close>.\<close>

fun join :: "string \<Rightarrow> string list \<Rightarrow> string" where
  "join sep [] = []"
| "join sep [x] = x"
| "join sep (x # y # ys) = x @ sep @ join sep (y # ys)"

text \<open>\<open>html.escape(s)\<close> with \<open>quote=True\<close>: the ampersand first, then the other four.\<close>

definition html_escape :: "string \<Rightarrow> string" where
  \<open>html_escape s =
     py_replace [CHR 0x27] ''&#x27;''
       (py_replace [CHR 0x22] ''&quot;''
         (py_replace ''>'' ''&gt;''
           (py_replace ''<'' ''&lt;''
             (py_replace ''&'' ''&amp;'' s))))\<close>

text \<open>\<open>s.strip()\<close>, \<open>s.strip(chars)\<close> and \<open>s.rstrip(chars)\<close>.\<close>

definition strip_with :: "(char \<Rightarrow> bool) \<Rightarrow> string \<Rightarrow> string" where
  "strip_with p s = rev (dropWhile p (rev (dropWhile p s)))"

definition strip :: "string \<Rightarrow> string" where
  "strip s = strip_with is_space_c s"

definition strip_chars :: "string \<Rightarrow> string \<Rightarrow> string" where
  "strip_chars chars s = strip_with (\<lambda>c. c \<in> set chars) s"

definition rstrip_chars :: "string \<Rightarrow> string \<Rightarrow> string" where
  "rstrip_chars chars s = rev (dropWhile (\<lambda>c. c \<in> set chars) (rev s))"

definition endswith :: "string \<Rightarrow> string \<Rightarrow> bool" where
  "endswith s suf = suffix suf s"

text \<open>\<open>s.split()\<close>: the maximal runs of non-whitespace characters.\<close>

fun split_from :: "string \<Rightarrow> string \<Rightarrow> string list" where
  "split_from cur [] = (if cur = [] then [] else [cur])"
| "split_from cur (c # cs) =
     (if is_space_c c then (if cur = [] then split_from [] cs else cur # split_from [] cs)
      else split_from (cur @ [c]) cs)"

definition split_ws :: "string \<Rightarrow> string list" where
  "split_ws s = split_from [] s"

text \<open>
  \<open>s.splitlines()\<close> on ASCII: a line ends at LF, CR, CR LF, VT, FF, FS, GS or RS; the line
  ends are dropped and no empty last line is produced. \<open>after_cr\<close> records that the
  previous character was a CR, so that an LF right after it belongs to the same line end.
\<close>

definition is_linebreak :: "char \<Rightarrow> bool" where
  "is_linebreak c =
     (c \<in> set [CHR 0x0A, CHR 0x0B, CHR 0x0C, CHR 0x0D, CHR 0x1C, CHR 0x1D, CHR 0x1E])"

fun splitlines_from :: "string \<Rightarrow> bool \<Rightarrow> string \<Rightarrow> string list" where
  "splitlines_from cur after_cr [] = (if cur = [] then [] else [cur])"
| "splitlines_from cur after_cr (c # cs) =
     (if after_cr \<and> c = CHR 0x0A then splitlines_from cur False cs
      else if c = CHR 0x0D then cur # splitlines_from [] True cs
      else if is_linebreak c then cur # splitlines_from [] False cs
      else splitlines_from (cur @ [c]) False cs)"

definition splitlines :: "string \<Rightarrow> string list" where
  "splitlines s = splitlines_from [] False s"

text \<open>\<open>s.isupper()\<close>: some cased character, and no lowercase one.\<close>

definition isupper :: "string \<Rightarrow> bool" where
  "isupper s = ((\<exists>c \<in> set s. is_upper_c c) \<and> (\<forall>c \<in> set s. \<not> is_lower_c c))"

text \<open>
  \<open>s.istitle()\<close>: an uppercase character only after an uncased one, a lowercase character
  only after a cased one, and at least one cased character.
\<close>

fun istitle_from :: "bool \<Rightarrow> bool \<Rightarrow> string \<Rightarrow> bool" where
  "istitle_from cased previous_is_cased [] = cased"
| "istitle_from cased previous_is_cased (c # cs) =
     (if is_upper_c c then (if previous_is_cased then False else istitle_from True True cs)
      else if is_lower_c c then (if \<not> previous_is_cased then False else istitle_from True True cs)
      else istitle_from cased False cs)"

definition istitle :: "string \<Rightarrow> bool" where
  "istitle s = istitle_from False False s"

section \<open>Regular expressions\<close>

text \<open>
  The patterns of the source, matched the way Python's \<open>re\<close> does: by backtracking, greedy
  repetitions trying the longest continuation first, alternatives from left to right.
  \<open>rx_match r s\<close> lists, in that order of preference, the remainders of \<open>s\<close> after each way
  \<open>r\<close> can match a prefix of \<open>s\<close>; its head is the match Python takes.
\<close>

datatype rx =
  Eps | Cls "char \<Rightarrow> bool" | Cat rx rx | Alt rx rx | Opt rx | Plus rx | LazyStar rx

primrec plus_iter :: "(string \<Rightarrow> string list) \<Rightarrow> nat \<Rightarrow> string \<Rightarrow> string list" where
  "plus_iter m 0 s = []"
| "plus_iter m (Suc n) s =
     concat (map (\<lambda>t. plus_iter m n t @ [t]) (filter (\<lambda>t. length t < length s) (m s)))"

text \<open>A lazy repetition tries to stop before it tries another round.\<close>

primrec lazy_iter :: "(string \<Rightarrow> string list) \<Rightarrow> nat \<Rightarrow> string \<Rightarrow> string list" where
  "lazy_iter m 0 s = [s]"
| "lazy_iter m (Suc n) s =
     s # concat (map (lazy_iter m n) (filter (\<lambda>t. length t < length s) (m s)))"

primrec rx_match :: "rx \<Rightarrow> string \<Rightarrow> string list" where
  "rx_match Eps s = [s]"
| "rx_match (Cls p) s = (case s of [] \<Rightarrow> [] | c # cs \<Rightarrow> if p c then [cs] else [])"
| "rx_match (Cat r1 r2) s = concat (map (rx_match r2) (rx_match r1 s))"
| "rx_match (Alt r1 r2) s = rx_match r1 s @ rx_match r2 s"
| "rx_match (Opt r) s = rx_match r s @ [s]"
| "rx_match (Plus r) s = plus_iter (rx_match r) (length s) s"
| "rx_match (LazyStar r) s = lazy_iter (rx_match r) (length s) s"

text \<open>The text matched at the start of \<open>s\<close>, if any.\<close>

definition match_here :: "rx \<Rightarrow> string \<Rightarrow> string option" where
  "match_here r s =
     (case rx_match r s of [] \<Rightarrow> None | t # _ \<Rightarrow> Some (take (length s - length t) s))"

text \<open>\<open>pattern.search(s)\<close>: the match at the leftmost position that has one (its \<open>group(0)\<close>).\<close>

fun re_search :: "rx \<Rightarrow> string \<Rightarrow> string option" where
  "re_search r [] = match_here r []"
| "re_search r (c # cs) =
     (case match_here r (c # cs) of Some m \<Rightarrow> Some m | None \<Rightarrow> re_search r cs)"

text \<open>
  \<open>pattern.findall(s)\<close> for a pattern without groups: the successive non-overlapping
  matches from the left. An empty match is recorded and the scan moves on by one
  character.
\<close>

function re_findall :: "rx \<Rightarrow> string \<Rightarrow> string list" where
  "re_findall r [] = (case match_here r [] of None \<Rightarrow> [] | Some m \<Rightarrow> [m])"
| "re_findall r (c # cs) =
     (case rx_match r (c # cs) of
        [] \<Rightarrow> re_findall r cs
      | t # _ \<Rightarrow>
          if length t < length (c # cs)
          then take (length (c # cs) - length t) (c # cs) # re_findall r t
          else [] # re_findall r cs)"
  by pat_completeness auto
termination
  by (relation "measure (\<lambda>(r, s). length s)") auto

text \<open>
  \<open>re.sub(pattern, repl, s)\<close> for a \<open>repl\<close> without group references: the matches that
  \<open>findall\<close> finds are replaced.
\<close>

function re_sub :: "rx \<Rightarrow> string \<Rightarrow> string \<Rightarrow> string" where
  "re_sub r repl [] = (case rx_match r [] of [] \<Rightarrow> [] | t # _ \<Rightarrow> repl)"
| "re_sub r repl (c # cs) =
     (case rx_match r (c # cs) of
        [] \<Rightarrow> c # re_sub r repl cs
      | t # _ \<Rightarrow>
          if length t < length (c # cs) then repl @ re_sub r repl t
          else repl @ c # re_sub r repl cs)"
  by pat_completeness auto
termination
  by (relation "measure (\<lambda>(r, repl, s). length s)") auto

text \<open>A literal, and a literal under \<open>re.I\<close>.\<close>

definition chr :: "char \<Rightarrow> rx" where
  "chr a = Cls (\<lambda>c. c = a)"

definition chr_i :: "char \<Rightarrow> rx" where
  "chr_i a = Cls (\<lambda>c. lower_char c = lower_char a)"

fun lit :: "string \<Rightarrow> rx" where
  "lit [] = Eps"
| "lit [a] = chr a"
| "lit (a # b # bs) = Cat (chr a) (lit (b # bs))"

fun lit_i :: "string \<Rightarrow> rx" where
  "lit_i [] = Eps"
| "lit_i [a] = chr_i a"
| "lit_i (a # b # bs) = Cat (chr_i a) (lit_i (b # bs))"

definition is_alpha_c :: "char \<Rightarrow> bool" where
  "is_alpha_c c = (is_upper_c c \<or> is_lower_c c)"

section \<open>Contact and structure extraction\<close>

text \<open>
  \<open>CONTACT_EMAIL_RE\<close> is \<^verbatim>\<open>[A-Z0-9._%+\-]+@[A-Z0-9.\-]+\.[A-Z]{2,}\<close> under \<open>re.I\<close>.
\<close>

definition email_local_c :: "char \<Rightarrow> bool" where
  "email_local_c c = (is_alpha_c c \<or> is_digit_c c \<or> c \<in> set ''._%+-'')"

definition email_domain_c :: "char \<Rightarrow> bool" where
  "email_domain_c c = (is_alpha_c c \<or> is_digit_c c \<or> c \<in> set ''.-'')"

definition CONTACT_EMAIL_RE :: rx where
  "CONTACT_EMAIL_RE =
     Cat (Plus (Cls email_local_c))
       (Cat (chr CHR ''@'')
         (Cat (Plus (Cls email_domain_c))
           (Cat (chr CHR ''.'')
             (Cat (Cls is_alpha_c) (Plus (Cls is_alpha_c))))))"

text \<open>
  \<open>CONTACT_PHONE_RE\<close> is
  \<^verbatim>\<open>(?:(?:\+?\d{1,3}[\s\-\.])?(?:\(?\d{3}\)?[\s\-\.])?\d{3}[\s\-\.]\d{4})\<close>.
\<close>

definition phone_sep :: rx where
  "phone_sep = Cls (\<lambda>c. is_space_c c \<or> c = CHR ''-'' \<or> c = CHR ''.'')"

definition digit :: rx where
  "digit = Cls is_digit_c"

definition CONTACT_PHONE_RE :: rx where
  "CONTACT_PHONE_RE =
     Cat (Opt (Cat (Opt (chr CHR ''+''))
                (Cat (Cat digit (Opt (Cat digit (Opt digit)))) phone_sep)))
       (Cat (Opt (Cat (Opt (chr CHR ''(''))
                  (Cat (Cat digit (Cat digit digit)) (Cat (Opt (chr CHR '')'')) phone_sep))))
         (Cat (Cat digit (Cat digit digit))
           (Cat phone_sep (Cat digit (Cat digit (Cat digit digit))))))"

text \<open>\<open>LINK_RE\<close> is \<^verbatim>\<open>(?:https?://|www\.)\S+\<close> under \<open>re.I\<close>.\<close>

definition LINK_RE :: rx where
  "LINK_RE =
     Cat (Alt (Cat (lit_i ''http'') (Cat (Opt (chr_i CHR ''s'')) (lit ''://''))) (lit_i ''www.''))
       (Plus (Cls (\<lambda>c. \<not> is_space_c c)))"

text \<open>The pattern of the name scan, \<^verbatim>\<open>education|experience|projects|skills\<close> under \<open>re.I\<close>.\<close>

definition SECTION_KEYWORD_RE :: rx where
  "SECTION_KEYWORD_RE =
     Alt (lit_i ''education'') (Alt (lit_i ''experience'') (Alt (lit_i ''projects'') (lit_i ''skills'')))"

record contact_bits =
  name :: string
  email :: string
  phone :: string
  links :: "string list"

text \<open>The loop over \<open>lines[:6]\<close> that leaves at its first line without a section keyword.\<close>

fun name_loop :: "string list \<Rightarrow> string" where
  "name_loop [] = []"
| "name_loop (line # rest) =
     (if re_search SECTION_KEYWORD_RE line = None then line else name_loop rest)"

text \<open>The loop over \<open>links\<close> with its \<open>seen\<close> set and its \<open>uniq_links\<close> list.\<close>

fun uniq_loop :: "string list \<Rightarrow> string list \<times> string set \<Rightarrow> string list \<times> string set" where
  "uniq_loop [] st = st"
| "uniq_loop (u # us) (uniq_links, seen) =
     uniq_loop us (if u \<notin> seen then (uniq_links @ [u], insert u seen) else (uniq_links, seen))"

definition extract_contact_bits :: "string \<Rightarrow> contact_bits" where
  "extract_contact_bits resume_text =
     (let text = strip resume_text;
          lines = filter (\<lambda>line. line \<noteq> []) (map strip (splitlines text));
          nm = name_loop (take 6 lines);
          em = re_search CONTACT_EMAIL_RE text;
          ph = re_search CONTACT_PHONE_RE text;
          uniq_links = fst (uniq_loop (re_findall LINK_RE text) ([], {}))
      in \<lparr> name = take 120 nm,
           email = (case em of None \<Rightarrow> [] | Some m \<Rightarrow> m),
           phone = (case ph of None \<Rightarrow> [] | Some m \<Rightarrow> m),
           links = take 5 uniq_links \<rparr>)"

definition SECTION_CANON :: "string list" where
  "SECTION_CANON =
     [''header'', ''summary'', ''objective'', ''skills'', ''technical skills'', ''experience'',
      ''work experience'', ''professional experience'', ''projects'', ''education'',
      ''certifications'', ''awards'', ''publications'', ''activities'', ''volunteering'']"

text \<open>
  \<open>_normalize_heading\<close>. Its strip set also holds a bullet and an em dash, which no ASCII
  text contains.
\<close>

definition normalize_heading :: "string \<Rightarrow> string" where
  "normalize_heading h = join '' '' (split_ws (strip (strip_chars ('' '' @ [CHR 0x09] @ '':-'') h)))"

definition looks_like_heading :: "string \<Rightarrow> bool" where
  "looks_like_heading line =
     (let s = strip line in
      if length s > 80 \<or> length s < 3 then False
      else let s = (if endswith s '':'' then butlast s else s);
               words = split_ws s
           in if length words \<le> 6 \<and> (isupper s \<or> istitle s) then True
              else lower s \<in> set SECTION_CANON)"

definition heading_key :: "string \<Rightarrow> string" where
  "heading_key h = rstrip_chars '':'' (lower h)"

text \<open>The two loops of \<open>_detect_section_order\<close>, each with its own \<open>seen\<close> set.\<close>

fun order_loop :: "string list \<Rightarrow> string list \<times> string set \<Rightarrow> string list \<times> string set" where
  "order_loop [] st = st"
| "order_loop (raw # raws) (order, seen) =
     order_loop raws
       (if looks_like_heading raw
        then (let h = normalize_heading raw; k = heading_key h
              in if k \<notin> seen then (order @ [h], insert k seen) else (order, seen))
        else (order, seen))"

fun dedup_loop :: "string list \<Rightarrow> string list \<times> string set \<Rightarrow> string list \<times> string set" where
  "dedup_loop [] st = st"
| "dedup_loop (h # hs) (dedup, seen2) =
     dedup_loop hs
       (let k = heading_key h
        in if k \<notin> seen2 then (dedup @ [h], insert k seen2) else (dedup, seen2))"

definition detect_section_order :: "string \<Rightarrow> string list" where
  "detect_section_order resume_text =
     (let order = fst (order_loop (splitlines resume_text) ([], {}));
          dedup = fst (dedup_loop order ([], {}))
      in take 12 dedup)"

section \<open>The guardrail builder\<close>

definition ensure_invariants_present :: "string \<Rightarrow> contact_bits \<Rightarrow> bool" where
  "ensure_invariants_present html invariants =
     (if html = [] then False
      else let ok = True;
               ok = (if name invariants \<noteq> []
                     then ok \<and> py_in (lower (name invariants)) (lower html) else ok);
               ok = (if email invariants \<noteq> []
                     then ok \<and> py_in (lower (email invariants)) (lower html) else ok)
           in ok)"

text \<open>The loop of \<open>_order_ok\<close>; \<open>pos\<close> is the index found for the previous heading.\<close>

fun order_scan :: "string \<Rightarrow> int \<Rightarrow> string list \<Rightarrow> bool" where
  "order_scan text_l pos [] = True"
| "order_scan text_l pos (h # hs) =
     (let idx = py_find text_l (rstrip_chars '':'' (lower (normalize_heading h)))
      in if idx = - 1 \<or> idx < pos then False else order_scan text_l idx hs)"

definition order_ok :: "string list \<Rightarrow> string \<Rightarrow> bool" where
  "order_ok section_order html =
     (if section_order = [] then True else order_scan (lower html) (- 1) section_order)"

definition css :: string where
  "css = ''<style>\<newline>body{font-family:system-ui,-apple-system,Segoe UI,Roboto,Helvetica,Arial,sans-serif;background:#0b1220;color:#e6eaf2;margin:24px}\<newline>.card{background:#121a2b;border:1px solid #223154;border-radius:14px;padding:22px;max-width:900px;margin:auto}\<newline>h1,h2{margin:0 0 10px} h1{font-size:28px} h2{font-size:18px;margin-top:22px}\<newline>ul{margin:8px 0 0 18px}\<newline>li{color:#fff}\<newline></style>\<newline>''"

text \<open>The opening shared by the error page and the wrapping of a bare body.\<close>

definition doc_open :: string where
  "doc_open = ''<!doctype html><html><head>''"

text \<open>
  The rendering returned when no API key is configured: the f-string of the source, cut at
  the preformatted block.
\<close>

definition fallback_head :: string where
  \<open>fallback_head = ''<!doctype html>\<newline><html lang="en"><meta charset="utf-8" />\<newline><title>Tailored Resume (AI disabled)</title>\<newline><style>\<newline>body{font-family:system-ui,-apple-system,Segoe UI,Roboto,Helvetica,Arial,sans-serif;background:#0b1220;color:#e6eaf2;margin:24px}\<newline>.card{background:#121a2b;border:1px solid #223154;border-radius:14px;padding:22px;max-width:900px;margin:auto}\<newline>h1,h2{margin:0 0 10px} h1{font-size:28px} h2{font-size:18px;margin-top:22px} ul{margin:8px 0 0 18px}\<newline>.muted{color:#9aa6be;font-size:13px}\<newline>li{color:#fff}\<newline></style>\<newline><div class="card">\<newline><h1>''\<close>

definition pre_open :: string where
  \<open>pre_open = ''<pre style="white-space:pre-wrap">''\<close>

definition pre_close :: string where
  "pre_close = ''</pre>''"

definition fallback_header :: "contact_bits \<Rightarrow> string" where
  \<open>fallback_header invariants =
     fallback_head
     @ html_escape (if name invariants \<noteq> [] then name invariants else ''Your Name'')
     @ ''</h1>\<newline><div class="muted">''
     @ html_escape (email invariants) @ '' '' @ html_escape (phone invariants)
     @ ''</div>\<newline><p class="muted">''
     @ join ('' '' @ [CHR 0xE2, CHR 0x80, CHR 0xA2] @ '' '') (map html_escape (links invariants))
     @ ''</p>\<newline><h2>Original (not parsed)</h2>\<newline>''\<close>

definition fallback_html :: "contact_bits \<Rightarrow> string \<Rightarrow> string" where
  \<open>fallback_html invariants resume_text =
     (let safe_resume = py_replace ''>'' ''&gt;'' (py_replace ''<'' ''&lt;'' resume_text)
      in fallback_header invariants
         @ pre_open @ safe_resume @ pre_close
         @ ''\<newline></div>\<newline></html>'')\<close>

text \<open>
  A request to the generation backend. The fixed wording of the system and user messages
  is not reproduced: a request is identified by the values the source interpolates into
  them, and by whether the retry paragraph is appended.
\<close>

record prompt =
  invariant_block :: string
  order_display :: string
  order_strict :: "string list"
  resume_part :: string
  job_part :: string
  interests_part :: string
  retry_paragraph :: bool

definition invariant_lines :: "contact_bits \<Rightarrow> string list" where
  "invariant_lines invariants =
     (if name invariants \<noteq> [] then [''- Name: '' @ name invariants] else [])
     @ (if email invariants \<noteq> [] then [''- Email: '' @ email invariants] else [])
     @ (if phone invariants \<noteq> [] then [''- Phone: '' @ phone invariants] else [])
     @ (if links invariants \<noteq> [] then [''- Links: '' @ join '', '' (links invariants)] else [])"

definition user_prompt :: "contact_bits \<Rightarrow> string list \<Rightarrow> string \<Rightarrow> string \<Rightarrow> string \<Rightarrow> prompt" where
  "user_prompt invariants section_order resume_text job_text interests =
     \<lparr> invariant_block =
         (let b = join [CHR 0x0A] (invariant_lines invariants)
          in if b \<noteq> [] then b else ''- (no explicit header invariants found)''),
       order_display =
         (if section_order \<noteq> [] then join '' > '' section_order else ''(not detected)''),
       order_strict = map heading_key section_order,
       resume_part = take 20000 resume_text,
       job_part = take 20000 job_text,
       interests_part = (if interests \<noteq> [] then interests else ''(none)''),
       retry_paragraph = False \<rparr>"

text \<open>
  The backend is an oracle with a state of its own: given a request it yields the
  \<open>content\<close> of the completion, or \<open>Inl\<close> the exception that
  \<open>_http_chat_completion\<close> raises (timeout, status other than 200, malformed body). The
  world pairs the oracle's state with the log of the requests sent so far.
\<close>

type_synonym 's backend = "'s \<Rightarrow> prompt \<Rightarrow> (exn + string) \<times> 's"

type_synonym 's world = "'s \<times> prompt list"

definition http_chat_completion :: "'s backend \<Rightarrow> prompt \<Rightarrow> 's world \<Rightarrow> (exn + string) \<times> 's world" where
  "http_chat_completion gen p w =
     (case gen (fst w) p of
        (Inl e, st) \<Rightarrow> (Inl e, (st, snd w @ [p]))
      | (Inr content, st) \<Rightarrow> (Inr (strip content), (st, snd w @ [p])))"

definition error_page :: "string \<Rightarrow> string" where
  \<open>error_page e =
     doc_open @ css @ ''</head>''
     @ ''<body><div class=\'card\'>''
     @ ''<h2>Tailor error</h2>''
     @ ''<p class=\'muted\'>OpenAI request failed or timed out.</p>''
     @ ''<pre>'' @ html_escape e @ ''</pre></div></body></html>''\<close>

text \<open>
  The part of \<open>_call_once\<close> after its \<open>try\<close> statement: first the doctype, then the style
  block.
\<close>

definition doctype_line :: string where
  "doctype_line = ''<!doctype html>'' @ [CHR 0x0A]"

definition with_doctype :: "string \<Rightarrow> string" where
  "with_doctype html =
     (if \<not> py_in ''<!doctype'' (lower html) then doctype_line @ html else html)"

definition head_css :: string where
  "head_css = ''<head>'' @ [CHR 0x0A] @ css"

definition li_rule :: string where
  "li_rule = ''li{color:#fff}'' @ [CHR 0x0A] @ ''</style>''"

definition post_process :: "string \<Rightarrow> string" where
  "post_process html0 =
     (let html = with_doctype html0
      in if \<not> py_in ''<style'' (lower html) then
           (if py_in ''<head>'' html
            then py_replace ''<head>'' head_css html
            else let body_part = (if \<not> py_in ''<html'' (lower html) then html else [])
                 in doc_open @ css @ ''</head><body>''
                    @ (if body_part \<noteq> [] then body_part else html) @ ''</body></html>'')
         else if \<not> py_in ''li{color'' html
         then py_replace ''</style>'' li_rule html
         else html)"

definition call_once :: "'s backend \<Rightarrow> prompt \<Rightarrow> 's world \<Rightarrow> string \<times> 's world" where
  "call_once gen prompt_user w =
     (case http_chat_completion gen prompt_user w of
        (Inl e, w') \<Rightarrow> (error_page (str_of e), w')
      | (Inr html, w') \<Rightarrow>
          if html = [] then (error_page ''empty completion'', w')
          else (post_process html, w'))"

text \<open>\<open>OPENAI_API_KEY\<close> and \<open>OPENAI_MAX_RETRIES\<close>, read from the process environment.\<close>

record config =
  api_key :: "string option"
  max_retries :: int

definition ai_tailor_resume_html ::
  "config \<Rightarrow> 's backend \<Rightarrow> string \<Rightarrow> string \<Rightarrow> string \<Rightarrow> 's world \<Rightarrow> string \<times> 's world" where
  "ai_tailor_resume_html cfg gen resume_text job_text interests w =
     (let invariants = extract_contact_bits resume_text;
          section_order = detect_section_order resume_text
      in if api_key cfg = None \<or> api_key cfg = Some [] then
           (fallback_html invariants resume_text, w)
         else
           let user = user_prompt invariants section_order resume_text job_text interests;
               (html, w1) = call_once gen user w
           in if max_retries cfg > 0
                 \<and> (\<not> ensure_invariants_present html invariants \<or> \<not> order_ok section_order html)
              then let retry_user = user \<lparr> retry_paragraph := True \<rparr>;
                       (html2, w2) = call_once gen retry_user w1
                   in if ensure_invariants_present html2 invariants \<and> order_ok section_order html2
                      then (html2, w2) else (html, w2)
              else (html, w1))"

section \<open>The web text fetcher\<close>

text \<open>
  The first substitution of \<open>_get_text_from_url\<close> uses
  \<^verbatim>\<open>(?is)<(script|style).*?>.*?</\1>\<close>. Under \<open>re.I\<close> the back-reference matches the
  captured tag name in any case, and at one start position at most one of the two names
  can match, so the pattern is the alternative of the same block for each name. The
  second one uses \<^verbatim>\<open>(?s)<[^>]+>\<close>.
\<close>

definition any_char :: rx where
  "any_char = Cls (\<lambda>c. True)"

definition block_re :: "string \<Rightarrow> rx" where
  "block_re tag =
     Cat (chr CHR ''<'') (Cat (lit_i tag) (Cat (LazyStar any_char) (Cat (chr CHR ''>'')
       (Cat (LazyStar any_char) (Cat (lit ''</'') (Cat (lit_i tag) (chr CHR ''>'')))))))"

definition SCRIPT_STYLE_RE :: rx where
  "SCRIPT_STYLE_RE = Alt (block_re ''script'') (block_re ''style'')"

definition TAG_RE :: rx where
  "TAG_RE = Cat (chr CHR ''<'') (Cat (Plus (Cls (\<lambda>c. c \<noteq> CHR ''>''))) (chr CHR ''>''))"

text \<open>
  What the fetcher takes from outside the program: \<open>fetch\<close> builds the request, opens the
  URL, reads the body and decodes it, or raises; \<open>unescape\<close> is \<open>html.unescape\<close>, whose
  entity table is the library's.
\<close>

record web =
  fetch :: "string \<Rightarrow> exn + string"
  unescape :: "string \<Rightarrow> string"

definition get_text_from_url :: "web \<Rightarrow> string \<Rightarrow> exn + string" where
  "get_text_from_url net url =
     (if url = [] then Inr ''[No job URL provided]''
      else try_except
        (and_then (fetch net url) (\<lambda>html.
           let html = re_sub SCRIPT_STYLE_RE '' '' html;
               text = re_sub TAG_RE '' '' html;
               text = unescape net (join '' '' (split_ws text))
           in Inr (if text \<noteq> [] then take 20000 text
                   else ''[Fetched page had no visible text]'')))
        (\<lambda>e. Inr (''[Could not fetch JD: '' @ str_of e @ '']'')))"

section \<open>The PDF plaintext extractor\<close>

text \<open>
  What \<open>pypdf\<close> reports for a document: whether it is encrypted, what \<open>decrypt("")\<close> does,
  and its pages, each with the outcome of its \<open>extract_text()\<close> (\<open>None\<close> for Python's
  \<open>None\<close>). \<open>pdf_open\<close> stands for \<open>PdfReader(io.BytesIO(data))\<close>.
\<close>

type_synonym bytes = "8 word list"

record pdf_reader =
  is_encrypted :: bool
  decrypt_empty :: "exn + unit"
  pages :: "exn + (exn + string option) list"

definition max_chars :: nat where
  "max_chars = 20000"

text \<open>
  The page loop. The source leaves it when the collected length exceeds
  \<open>max_chars * 1.1\<close>, a float just above 22000: for an integer length that is \<open>> 22000\<close>.
\<close>

fun pages_loop :: "(exn + string option) list \<Rightarrow> string list \<Rightarrow> exn + string list" where
  "pages_loop [] out = Inr out"
| "pages_loop (page # rest) out =
     (case page of
        Inl e \<Rightarrow> Inl e
      | Inr t \<Rightarrow>
          let out = out @ [case t of None \<Rightarrow> [] | Some x \<Rightarrow> x]
          in if 10 * sum_list (map length out) > 11 * max_chars then Inr out
             else pages_loop rest out)"

definition extract_pdf_text :: "(bytes \<Rightarrow> exn + pdf_reader) \<Rightarrow> bytes \<Rightarrow> exn + string" where
  "extract_pdf_text pdf_open data =
     try_except
       (and_then (pdf_open data) (\<lambda>reader.
          let after_decrypt =
                (if is_encrypted reader
                 then try_except (and_then (decrypt_empty reader) (\<lambda>_. Inr None))
                        (\<lambda>e. Inr (Some ''[PDF is encrypted; text not extracted]''))
                 else Inr None)
          in and_then after_decrypt (\<lambda>returned.
               case returned of
                 Some sentinel \<Rightarrow> Inr sentinel
               | None \<Rightarrow>
                   and_then (pages reader) (\<lambda>ps.
                   and_then (pages_loop ps []) (\<lambda>out.
                     let text = strip (join [CHR 0x0A] out)
                     in Inr (if text \<noteq> [] then take max_chars text
                             else ''[PDF had no extractable text]''))))))
       (\<lambda>e. Inr (''[Could not extract PDF text: '' @ str_of e @ '']''))"

section \<open>The skill-scoring route\<close>

text \<open>
  \<open>a / b\<close> on integers raises \<open>ZeroDivisionError\<close> for \<open>b = 0\<close>. The quotient is kept exact
  here; Python rounds it to the nearest double, and \<open>round(x, 3)\<close> then works on that
  double, so the two can differ where the exact quotient lies halfway between two
  three-digit decimals.
\<close>

definition py_truediv :: "int \<Rightarrow> int \<Rightarrow> exn + rat" where
  "py_truediv a b = (if b = 0 then Inl (OtherError ''division by zero'') else Inr (of_int a / of_int b))"

definition py_round3 :: "rat \<Rightarrow> rat" where
  "py_round3 x =
     (let y = x * 1000; f = \<lfloor>y\<rfloor>; d = y - of_int f
      in of_int (if d < 1 / 2 then f else if 1 / 2 < d then f + 1
                 else if even f then f else f + 1) / 1000)"

record score_body =
  resumeSkills :: "string list"
  requiredSkills :: "string list"

record score_result =
  score :: rat
  coverage :: rat

definition score_divisor :: "score_body \<Rightarrow> int" where
  "score_divisor body = max 1 (int (card (set (map lower (requiredSkills body)))))"

definition score_route :: "score_body \<Rightarrow> exn + score_result" where
  "score_route body =
     (let resume = set (map lower (resumeSkills body));
          required = set (map lower (requiredSkills body))
      in and_then (py_truediv (int (card (resume \<inter> required))) (max 1 (int (card required))))
           (\<lambda>cov. Inr \<lparr> score = py_round3 cov, coverage = cov \<rparr>))"

section \<open>The upload and tailor handlers\<close>

definition MAX_DOCS_PER_USER :: int where
  "MAX_DOCS_PER_USER = 10"

definition ALLOWED_EXTS :: "string list" where
  "ALLOWED_EXTS = [''pdf'', ''doc'', ''docx'', ''txt'']"

text \<open>\<open>_resp(code, obj)\<close>; of the JSON body only its \<open>error\<close> field is kept.\<close>

record response =
  statusCode :: nat
  err :: "string option"

definition resp_error :: "nat \<Rightarrow> string \<Rightarrow> response" where
  "resp_error code msg = \<lparr> statusCode = code, err = Some msg \<rparr>"

definition resp_ok :: response where
  "resp_ok = \<lparr> statusCode = 200, err = None \<rparr>"

record doc_item =
  s3Key :: "string option"
  contentType :: "string option"

text \<open>
  The services the handlers talk to, as the answers they give: the document table
  (\<open>_count_docs_for_user\<close>, a query with a scan fallback that re-raises what it cannot
  handle; \<open>_find_doc_by_id\<close>; \<open>put_item\<close>), the bucket, and the library calls whose tables are
  not part of the program. \<open>uuid4 n\<close> is the identifier drawn at the \<open>n\<close>-th call site of
  a handler, \<open>now\<close> the clock in decimal.
\<close>

record 's env =
  count_docs_for_user :: "string \<Rightarrow> exn + int"
  find_doc_by_id :: "string \<Rightarrow> string \<Rightarrow> exn + doc_item option"
  put_item :: "string \<Rightarrow> string \<Rightarrow> exn + unit"
  get_object :: "string \<Rightarrow> exn + bytes"
  put_object :: "string \<Rightarrow> bytes \<Rightarrow> exn + unit"
  generate_presigned_url :: "string \<Rightarrow> exn + string"
  b64decode :: "string \<Rightarrow> exn + bytes"
  decode_utf8 :: "bytes \<Rightarrow> string"
  pdf_open :: "bytes \<Rightarrow> exn + pdf_reader"
  net :: web
  cfg :: config
  gen :: "'s backend"
  uuid4 :: "nat \<Rightarrow> string"
  now :: string

definition ext_of :: "string \<Rightarrow> string" where
  "ext_of filename =
     (if CHR ''.'' \<in> set filename
      then rev (takeWhile (\<lambda>c. c \<noteq> CHR ''.'') (rev (lower filename))) else [])"

definition basename :: "string \<Rightarrow> string" where
  "basename key =
     (if CHR ''/'' \<in> set key then rev (takeWhile (\<lambda>c. c \<noteq> CHR ''/'') (rev key)) else key)"

text \<open>\<open>x.rsplit(".", 1)[0]\<close>: what precedes the last dot, or all of \<open>x\<close>.\<close>

definition before_last_dot :: "string \<Rightarrow> string" where
  "before_last_dot x =
     (if CHR ''.'' \<in> set x then rev (tl (dropWhile (\<lambda>c. c \<noteq> CHR ''.'') (rev x))) else x)"

text \<open>
  The quota block of both handlers: \<open>True\<close> when it returns the 429 response. The
  \<open>except Exception: pass\<close> around it is the handler of the \<open>try_except\<close>.
\<close>

definition over_quota :: "'s env \<Rightarrow> string \<Rightarrow> exn + bool" where
  "over_quota env user_id =
     try_except
       (and_then (count_docs_for_user env user_id) (\<lambda>n. Inr (MAX_DOCS_PER_USER \<le> n)))
       (\<lambda>e. Inr False)"

record upload_body =
  userId :: "string option"
  filename :: "string option"
  contentBase64 :: "string option"

text \<open>\<open>body.get(k) or default\<close>: an absent, null or empty value gives the default.\<close>

definition get_or :: "string option \<Rightarrow> string \<Rightarrow> string" where
  "get_or v d = (case v of None \<Rightarrow> d | Some x \<Rightarrow> if x = [] then d else x)"

definition encode_utf8 :: "string \<Rightarrow> bytes" where
  "encode_utf8 s = map (\<lambda>c. of_nat (of_char c)) s"

text \<open>\<open>handle_upload_resume\<close> from the decoding of the content on, after the quota block.\<close>

definition upload_store :: "'s env \<Rightarrow> string \<Rightarrow> string \<Rightarrow> string \<Rightarrow> exn + response" where
  "upload_store env user_id fname content_b64 =
     (case b64decode env content_b64 of
        Inl e \<Rightarrow> Inr (resp_error 400 ''contentBase64 is not valid base64'')
      | Inr data \<Rightarrow>
          if length data > 10 * 1024 * 1024 then
            Inr (resp_error 413 ''File too large (>10MB)'')
          else
            let key = ''resumes/'' @ user_id @ ''/'' @ fname
            in and_then
                 (try_except_client
                    (and_then (put_object env key data) (\<lambda>_. Inr None))
                    (\<lambda>m. Inr (Some (resp_error 500 ''Upload failed''))))
                 (\<lambda>failed. case failed of
                    Some r \<Rightarrow> Inr r
                  | None \<Rightarrow>
                      and_then (put_item env user_id (uuid4 env 1)) (\<lambda>_.
                      and_then (generate_presigned_url env key) (\<lambda>url.
                        Inr resp_ok))))"

definition handle_upload_resume :: "'s env \<Rightarrow> upload_body \<Rightarrow> exn + response" where
  "handle_upload_resume env body =
     (let user_id = strip (get_or (userId body) ''demo'');
          fname = strip (get_or (filename body) (''resume-'' @ uuid4 env 0 @ ''.txt''));
          content_b64 = get_or (contentBase64 body) []
      in if user_id = [] \<or> fname = [] \<or> content_b64 = [] then
           Inr (resp_error 400 ''Fields required: userId, filename, contentBase64'')
         else if ext_of fname \<notin> set ALLOWED_EXTS then
           Inr (resp_error 415 ''Unsupported file type. Allowed: PDF, DOC, DOCX, TXT'')
         else and_then (over_quota env user_id) (\<lambda>over.
           if over then Inr (resp_error 429 ''Doc limit reached (10).'')
           else upload_store env user_id fname content_b64))"

record tailor_body =
  t_userId :: "string option"
  t_documentId :: "string option"
  t_jobUrl :: "string option"
  t_interests :: "string option"

text \<open>The \<open>try\<close> block of \<open>handle_tailor\<close> that reads the source document.\<close>

definition read_resume_text :: "'s env \<Rightarrow> string \<Rightarrow> string \<Rightarrow> exn + string" where
  "read_resume_text env src_key src_ct =
     try_except
       (and_then (get_object env src_key) (\<lambda>data.
          if src_ct = ''application/pdf'' \<or> prefix [0x25, 0x50, 0x44, 0x46] data then
            extract_pdf_text (pdf_open env) data
          else if prefix ''text/'' src_ct \<or> src_ct \<in> {''application/json'', ''application/xml''} then
            Inr (take 20000 (decode_utf8 env data))
          else Inr (''[Original content-type '' @ src_ct @ '' not parsed]'')))
       (\<lambda>e. Inr ''[Could not fetch original resume bytes]'')"

text \<open>
  \<open>handle_tailor\<close> from the lookup of the source document on, after the quota block.
\<close>

definition tailor_store ::
  "'s env \<Rightarrow> string \<Rightarrow> string \<Rightarrow> string \<Rightarrow> 's world \<Rightarrow> (exn + response) \<times> 's world" where
  "tailor_store env user_id html_key html w =
     (and_then
        (try_except_client
           (and_then (put_object env html_key (encode_utf8 html)) (\<lambda>_. Inr None))
           (\<lambda>m. Inr (Some (resp_error 500 ''S3 put failed''))))
        (\<lambda>failed. case failed of
           Some r \<Rightarrow> Inr r
         | None \<Rightarrow>
             and_then (put_item env user_id (uuid4 env 0)) (\<lambda>_.
             and_then (generate_presigned_url env html_key) (\<lambda>url.
               Inr resp_ok))), w)"

definition tailor_generate ::
  "'s env \<Rightarrow> string \<Rightarrow> string \<Rightarrow> string \<Rightarrow> string \<Rightarrow> 's world \<Rightarrow> (exn + response) \<times> 's world" where
  "tailor_generate env user_id source_doc_id job_url interests w =
     (case find_doc_by_id env user_id source_doc_id of
        Inl e \<Rightarrow> (Inl e, w)
      | Inr None \<Rightarrow> (Inr (resp_error 404 ''Source document not found''), w)
      | Inr (Some item) \<Rightarrow>
          let src_key = get_or (s3Key item) [];
              src_ct = (case contentType item of None \<Rightarrow> ''application/octet-stream''
                        | Some ct \<Rightarrow> ct)
          in if src_key = [] then (Inr (resp_error 400 ''Source item missing s3Key''), w)
             else case and_then (read_resume_text env src_key src_ct) (\<lambda>resume_text.
                       and_then (get_text_from_url (net env) job_url) (\<lambda>job_text.
                         Inr (resume_text, job_text))) of
               Inl e \<Rightarrow> (Inl e, w)
             | Inr (resume_text, job_text) \<Rightarrow>
                 let (html, w') = ai_tailor_resume_html (cfg env) (gen env)
                                    resume_text job_text interests w;
                     html_key = ''resumes/'' @ user_id @ ''/tailored/''
                                @ before_last_dot (basename src_key)
                                @ ''__tailored_'' @ now env @ ''.html''
                 in tailor_store env user_id html_key html w')"

definition handle_tailor :: "'s env \<Rightarrow> tailor_body \<Rightarrow> 's world \<Rightarrow> (exn + response) \<times> 's world" where
  "handle_tailor env body w =
     (let user_id = strip (get_or (t_userId body) ''demo'');
          source_doc_id = strip (get_or (t_documentId body) []);
          job_url = strip (get_or (t_jobUrl body) []);
          interests = strip (get_or (t_interests body) [])
      in if user_id = [] \<or> source_doc_id = [] \<or> job_url = [] then
           (Inr (resp_error 400 ''Fields required: userId, documentId, jobUrl''), w)
         else case over_quota env user_id of
           Inl e \<Rightarrow> (Inl e, w)
         | Inr over \<Rightarrow>
             if over then (Inr (resp_error 429 ''Document limit reached (10)''), w)
             else tailor_generate env user_id source_doc_id job_url interests w)"

section \<open>Notions used in the statements\<close>

text \<open>The string \<open>_order_ok\<close> looks for: a heading normalized, lowercased, colons stripped.\<close>

definition order_key :: "string \<Rightarrow> string" where
  "order_key h = rstrip_chars '':'' (lower (normalize_heading h))"

text \<open>
  \<open>apart q p\<close>: no occurrence of \<open>q\<close> can begin inside \<open>p\<close>, whatever follows \<open>p\<close>; that is,
  no non-empty suffix of \<open>p\<close> is a prefix of \<open>q\<close> or has \<open>q\<close> as a prefix.
\<close>

fun apart :: "string \<Rightarrow> string \<Rightarrow> bool" where
  "apart q [] = True"
| "apart q (c # cs) = (\<not> prefix (c # cs) q \<and> \<not> prefix q (c # cs) \<and> apart q cs)"

text \<open>
  Deduplication by a key that keeps, of the elements with one key, the first: the head
  stays, and the elements sharing its key are dropped from what follows.
\<close>

function dedup_by :: "('a \<Rightarrow> 'k) \<Rightarrow> 'a list \<Rightarrow> 'a list" where
  "dedup_by key [] = []"
| "dedup_by key (x # xs) = x # dedup_by key (filter (\<lambda>y. key y \<noteq> key x) xs)"
  by pat_completeness auto
termination
  by (relation "measure (\<lambda>(key, xs). length xs)") (auto simp: less_Suc_eq_le)

text \<open>The match at the least start position of \<open>s\<close> at which the pattern matches.\<close>

definition first_match :: "rx \<Rightarrow> string \<Rightarrow> string option" where
  "first_match r s =
     (case filter (\<lambda>i. match_here r (drop i s) \<noteq> None) [0..<Suc (length s)] of
        [] \<Rightarrow> None
      | i # _ \<Rightarrow> match_here r (drop i s))"

text \<open>A line contains a section keyword, ignoring case.\<close>

definition SECTION_KEYWORDS :: "string list" where
  "SECTION_KEYWORDS = [''education'', ''experience'', ''projects'', ''skills'']"

definition has_keyword :: "string \<Rightarrow> bool" where
  "has_keyword line = (\<exists>k \<in> set SECTION_KEYWORDS. sublist k (lower line))"

text \<open>The lines of a text that hold more than white space, each trimmed.\<close>

definition nonempty_lines :: "string \<Rightarrow> string list" where
  "nonempty_lines text = filter (\<lambda>line. line \<noteq> []) (map strip (splitlines (strip text)))"

text \<open>A text with each \<open><\<close> and each \<open>>\<close> written as its entity.\<close>

definition escape_angle :: "string \<Rightarrow> string" where
  "escape_angle s =
     concat (map (\<lambda>c. if c = CHR ''<'' then ''&lt;'' else if c = CHR ''>'' then ''&gt;'' else [c]) s)"

text \<open>A line without the one trailing colon that \<open>_looks_like_heading\<close> removes.\<close>

definition drop_colon :: "string \<Rightarrow> string" where
  "drop_colon s = (if endswith s '':'' then butlast s else s)"

section \<open>Example environments\<close>

text \<open>
  Concrete answers of the outside world, used to run the definitions. \<open>refusing_net\<close> is a
  network layer where building the request fails the way \<open>urllib.request.Request\<close> fails on
  a URL without a scheme: a \<open>ValueError\<close> whose message quotes the URL.
\<close>

definition refusing_net :: web where
  "refusing_net =
     \<lparr> fetch = (\<lambda>url. Inl (OtherError (''unknown url type: '' @ [CHR 0x27] @ url @ [CHR 0x27]))),
       unescape = (\<lambda>s. s) \<rparr>"

definition serving_net :: web where
  "serving_net =
     \<lparr> fetch = (\<lambda>url. Inr ''<html><style>p{}</style><p>Senior  <b>Engineer</b></p></html>''),
       unescape = (\<lambda>s. s) \<rparr>"

definition locked_pdf :: pdf_reader where
  "locked_pdf =
     \<lparr> is_encrypted = True, decrypt_empty = Inl (OtherError ''unsupported algorithm''),
       pages = Inl (OtherError ''File has not been decrypted'') \<rparr>"

text \<open>
  What \<open>pypdf\<close> reports for a document encrypted with a user password that is not empty:
  \<open>decrypt("")\<close> does not raise, it returns the value that says the password was wrong,
  which the source discards; the pages then refuse access with a \<open>FileNotDecryptedError\<close>.
\<close>

definition wrong_password_pdf :: pdf_reader where
  "wrong_password_pdf =
     \<lparr> is_encrypted = True, decrypt_empty = Inr (),
       pages = Inl (OtherError ''File has not been decrypted'') \<rparr>"

definition open_wrong_password :: "bytes \<Rightarrow> exn + pdf_reader" where
  "open_wrong_password data = Inr wrong_password_pdf"

text \<open>The first bytes of a PDF file, \<open>%PDF\<close>.\<close>

definition pdf_magic :: bytes where
  "pdf_magic = [0x25, 0x50, 0x44, 0x46]"

definition broken_page_pdf :: pdf_reader where
  "broken_page_pdf =
     \<lparr> is_encrypted = False, decrypt_empty = Inr (),
       pages = Inr [Inr (Some ''Jane''), Inl (OtherError ''bad stream'')] \<rparr>"

definition demo_env :: "unit env" where
  "demo_env =
     \<lparr> count_docs_for_user = (\<lambda>u. Inl (ClientError ''ProvisionedThroughputExceededException'')),
       find_doc_by_id = (\<lambda>u d. Inr None),
       put_item = (\<lambda>u d. Inr ()),
       get_object = (\<lambda>k. Inr []),
       put_object = (\<lambda>k b. Inr ()),
       generate_presigned_url = (\<lambda>k. Inr ''https://bucket.example/signed''),
       b64decode = (\<lambda>s. Inr [0x4A, 0x61, 0x6E, 0x65]),
       decode_utf8 = (\<lambda>b. ''Jane''),
       pdf_open = (\<lambda>b. Inl (OtherError ''EOF marker not found'')),
       net = serving_net,
       cfg = \<lparr> api_key = None, max_retries = 1 \<rparr>,
       gen = (\<lambda>st p. (Inl (OtherError ''timed out''), st)),
       uuid4 = (\<lambda>n. ''3f2a''),
       now = ''1700000000'' \<rparr>"

definition demo_upload :: upload_body where
  "demo_upload = \<lparr> userId = None, filename = Some ''cv.txt'', contentBase64 = Some ''SmFuZQ=='' \<rparr>"

definition demo_tailor :: tailor_body where
  "demo_tailor = \<lparr> t_userId = Some ''demo'', t_documentId = Some ''d1'',
                    t_jobUrl = Some ''https://jobs.example/1'', t_interests = None \<rparr>"

definition demo_resume :: string where
  "demo_resume = ''Jane Doe'' @ [CHR 0x0A] @ ''EXPERIENCE'' @ [CHR 0x0A] @ ''Acme''"

definition demo_cfg :: config where
  "demo_cfg = \<lparr> api_key = Some ''sk-test'', max_retries = 1 \<rparr>"

definition flaky_gen :: "nat backend" where
  "flaky_gen st p =
     (if retry_paragraph p then Inr ''<!doctype html><style>li{color:#fff}</style><h1>Jane Doe</h1><h2>Experience</h2>Acme''
      else Inr '' <!doctype html><style>li{color:#fff}</style><h1>Resume</h1> '', Suc st)"

definition demo_html :: string where
  "demo_html = ''<h1>Jane Doe</h1><p>JANE@X.IO</p><h2>Experience</h2><h2>Education</h2>''"

definition demo_invariants :: contact_bits where
  "demo_invariants = \<lparr> name = ''Jane Doe'', email = ''jane@x.io'', phone = [], links = [] \<rparr>"

definition bare_html :: string where
  "bare_html = ''<p>Jane</p>''"

definition head_html :: string where
  "head_html = ''<head></head><p>Jane</p>''"

definition styled_html :: string where
  "styled_html = ''<STYLE>p{}</style>''"

definition chatty_html :: string where
  "chatty_html = ''Sure! <!doctype html><style>li{color:#fff}</style><p>Jane</p>''"

definition keyless_cfg :: config where
  "keyless_cfg = \<lparr> api_key = None, max_retries = 1 \<rparr>"

definition angle_resume :: string where
  "angle_resume = ''Jane <jd@x.io>''"

definition contact_resume :: string where
  "contact_resume = ''Core Skills'' @ [CHR 0x0A] @ ''Jane Doe'' @ [CHR 0x0A]
                    @ ''jd@x.io www.x.io WWW.x.io www.x.io''"

definition sections_resume :: string where
  "sections_resume = ''Experience'' @ [CHR 0x0A] @ ''- built things at a company'' @ [CHR 0x0A]
                     @ ''Education:'' @ [CHR 0x0A] @ ''EXPERIENCE''"

section \<open>The skill-scoring route never divides by zero\<close>

lemma py_round3_zero: "py_round3 0 = 0"
  by (simp add: py_round3_def)

text \<open>
  Claim C10. For every request body of the scoring route, the divisor of the coverage is
  \<open>max(1, len(required))\<close> and so at least 1; the route returns a result and raises
  nothing from the division; and with an empty \<open>requiredSkills\<close> list the coverage and the
  score are both 0.
\<close>

theorem score_route_divisor:
  "1 \<le> score_divisor body
   \<and> score_route body =
       Inr \<lparr> score = py_round3
                 (of_int (int (card (set (map lower (resumeSkills body))
                                     \<inter> set (map lower (requiredSkills body)))))
                  / of_int (score_divisor body)),
             coverage = of_int (int (card (set (map lower (resumeSkills body))
                                           \<inter> set (map lower (requiredSkills body)))))
                        / of_int (score_divisor body) \<rparr>
   \<and> (requiredSkills body = [] \<longrightarrow> score_route body = Inr \<lparr> score = 0, coverage = 0 \<rparr>)"
proof -
  have d: "1 \<le> score_divisor body"
    by (simp add: score_divisor_def)
  have nz: "max 1 (int (card (set (map lower (requiredSkills body))))) \<noteq> 0"
    by linarith
  have r: "score_route body =
       Inr \<lparr> score = py_round3
                 (of_int (int (card (set (map lower (resumeSkills body))
                                     \<inter> set (map lower (requiredSkills body)))))
                  / of_int (score_divisor body)),
             coverage = of_int (int (card (set (map lower (resumeSkills body))
                                           \<inter> set (map lower (requiredSkills body)))))
                        / of_int (score_divisor body) \<rparr>"
    unfolding score_route_def score_divisor_def Let_def py_truediv_def and_then_def
    using nz by simp
  have e: "requiredSkills body = [] \<longrightarrow> score_route body = Inr \<lparr> score = 0, coverage = 0 \<rparr>"
    unfolding r by (simp add: py_round3_zero)
  from d r e show ?thesis by blast
qed

theorem score_route_divisor_witness:
  "score_route \<lparr> resumeSkills = [''Python'', ''SQL''], requiredSkills = [] \<rparr>
     = Inr \<lparr> score = 0, coverage = 0 \<rparr>"
  using score_route_divisor [of "\<lparr> resumeSkills = [''Python'', ''SQL''], requiredSkills = [] \<rparr>"]
  by (simp add: py_round3_zero)

section \<open>The web text fetcher never raises\<close>

text \<open>
  Claim C5, as amended. For every network layer and URL the fetcher returns a string and
  raises nothing; for the empty URL it returns \<open>[No job URL provided]\<close>; when fetching
  raises, it returns \<open>[Could not fetch JD: \<close>, the message of the exception and \<open>]\<close>; when
  fetching succeeds, the returned string has at most 20000 characters.
\<close>

theorem get_text_from_url_never_raises:
  "(\<exists>s. get_text_from_url nw url = Inr s)
   \<and> get_text_from_url nw [] = Inr ''[No job URL provided]''
   \<and> (url \<noteq> [] \<longrightarrow> fetch nw url = Inl e \<longrightarrow>
        get_text_from_url nw url = Inr (''[Could not fetch JD: '' @ str_of e @ '']''))
   \<and> (url \<noteq> [] \<longrightarrow> fetch nw url = Inr page \<longrightarrow>
        (\<exists>s. get_text_from_url nw url = Inr s \<and> length s \<le> 20000))"
  unfolding get_text_from_url_def try_except_def and_then_def Let_def
  by (cases "fetch nw url") auto

theorem get_text_from_url_never_raises_witness:
  "get_text_from_url refusing_net ''ftp''
     = Inr (''[Could not fetch JD: unknown url type: '' @ [CHR 0x27] @ ''ftp'' @ [CHR 0x27] @ '']'')
   \<and> (\<exists>s. get_text_from_url serving_net ''https://jobs.example/1'' = Inr s \<and> length s \<le> 20000)"
  using get_text_from_url_never_raises [of refusing_net "''ftp''"
      "OtherError (''unknown url type: '' @ [CHR 0x27] @ ''ftp'' @ [CHR 0x27])"]
    get_text_from_url_never_raises [of serving_net "''https://jobs.example/1''" _
        "''<html><style>p{}</style><p>Senior  <b>Engineer</b></p></html>''"]
  by (simp add: refusing_net_def serving_net_def)

text \<open>
  The bound of 20000 characters does not hold on the error path: the sentinel embeds the
  whole message, and the message of the exception raised for a URL of 20000 letters
  without a scheme holds that URL.
\<close>

theorem get_text_from_url_long_error:
  "get_text_from_url refusing_net (replicate 20000 CHR ''a'')
     = Inr (''[Could not fetch JD: unknown url type: '' @ [CHR 0x27] @ replicate 20000 CHR ''a'' @ [CHR 0x27] @ '']'')
   \<and> \<not> length (''[Could not fetch JD: unknown url type: '' @ [CHR 0x27] @ replicate 20000 CHR ''a'' @ [CHR 0x27] @ '']'') \<le> 20000"
  by (simp add: get_text_from_url_def try_except_def and_then_def refusing_net_def)

section \<open>The PDF plaintext extractor never raises\<close>

text \<open>
  For every byte sequence and every behaviour of the PDF library the extractor returns a
  string and raises nothing. If the document reports encryption and \<open>decrypt("")\<close> raises,
  the result is \<open>[PDF is encrypted; text not extracted]\<close>; if opening the document, listing
  its pages or extracting the text of a page raises, the result is
  \<open>[Could not extract PDF text: \<close>, the message of the exception and \<open>]\<close>.
\<close>

lemma extract_pdf_text_never_raises:
  "(\<exists>s. extract_pdf_text opn data = Inr s)
   \<and> (opn data = Inr reader \<longrightarrow> is_encrypted reader \<longrightarrow> decrypt_empty reader = Inl e \<longrightarrow>
        extract_pdf_text opn data = Inr ''[PDF is encrypted; text not extracted]'')
   \<and> (opn data = Inl e \<longrightarrow>
        extract_pdf_text opn data = Inr (''[Could not extract PDF text: '' @ str_of e @ '']''))
   \<and> (opn data = Inr reader \<longrightarrow> (is_encrypted reader \<longrightarrow> decrypt_empty reader = Inr ()) \<longrightarrow>
        pages reader = Inl e \<longrightarrow>
        extract_pdf_text opn data = Inr (''[Could not extract PDF text: '' @ str_of e @ '']''))
   \<and> (opn data = Inr reader \<longrightarrow> (is_encrypted reader \<longrightarrow> decrypt_empty reader = Inr ()) \<longrightarrow>
        pages reader = Inr ps \<longrightarrow> pages_loop ps [] = Inl e \<longrightarrow>
        extract_pdf_text opn data = Inr (''[Could not extract PDF text: '' @ str_of e @ '']''))"
  unfolding extract_pdf_text_def try_except_def and_then_def Let_def
  by (auto split: sum.splits option.splits)

lemma extract_pdf_text_never_raises_examples:
  "extract_pdf_text (\<lambda>d. Inr locked_pdf) [] = Inr ''[PDF is encrypted; text not extracted]''
   \<and> extract_pdf_text (\<lambda>d. Inl (OtherError ''Cannot read an empty file'')) []
       = Inr ''[Could not extract PDF text: Cannot read an empty file]''
   \<and> extract_pdf_text (\<lambda>d. Inr wrong_password_pdf) [0x25, 0x50]
       = Inr ''[Could not extract PDF text: File has not been decrypted]''
   \<and> extract_pdf_text (\<lambda>d. Inr broken_page_pdf) [0x25, 0x50]
       = Inr ''[Could not extract PDF text: bad stream]''"
  using extract_pdf_text_never_raises [of "\<lambda>d. Inr locked_pdf" "[]" locked_pdf "OtherError ''unsupported algorithm''"]
    extract_pdf_text_never_raises [of "\<lambda>d. Inl (OtherError ''Cannot read an empty file'')" "[]" _ "OtherError ''Cannot read an empty file''"]
    extract_pdf_text_never_raises [of "\<lambda>d. Inr wrong_password_pdf" "[0x25, 0x50]" wrong_password_pdf "OtherError ''File has not been decrypted''"]
    extract_pdf_text_never_raises [of "\<lambda>d. Inr broken_page_pdf" "[0x25, 0x50]" broken_page_pdf "OtherError ''bad stream''" "[Inr (Some ''Jane''), Inl (OtherError ''bad stream'')]"]
  by (simp add: locked_pdf_def wrong_password_pdf_def broken_page_pdf_def max_chars_def)

text \<open>
  Claim C6 says that a document that reports encryption and that the empty password does
  not decrypt yields exactly \<open>[PDF is encrypted; text not extracted]\<close>. The code returns
  that sentinel only when \<open>decrypt("")\<close> raises. For a document with a user password,
  \<open>decrypt("")\<close> returns without raising, the code goes on to the pages, their access
  raises, and the result is the other sentinel,
  \<open>[Could not extract PDF text: File has not been decrypted]\<close>.
\<close>

theorem extract_pdf_text_wrong_password:
  "is_encrypted wrong_password_pdf
   \<and> decrypt_empty wrong_password_pdf = Inr ()
   \<and> extract_pdf_text open_wrong_password pdf_magic
       = Inr ''[Could not extract PDF text: File has not been decrypted]''
   \<and> extract_pdf_text open_wrong_password pdf_magic
       \<noteq> Inr ''[PDF is encrypted; text not extracted]''"
  by (simp add: extract_pdf_text_def try_except_def and_then_def open_wrong_password_def
        wrong_password_pdf_def)

section \<open>The quota check swallows its own failure\<close>

lemma over_quota_cases:
  "over_quota env u =
     (case count_docs_for_user env u of Inl e \<Rightarrow> Inr False | Inr n \<Rightarrow> Inr (10 \<le> n))"
  by (simp add: over_quota_def try_except_def and_then_def MAX_DOCS_PER_USER_def split: sum.splits)

lemma upload_store_count [simp]:
  "upload_store (env \<lparr> count_docs_for_user := f \<rparr>) u n c = upload_store env u n c"
  by (simp add: upload_store_def Let_def cong: sum.case_cong option.case_cong if_cong)

lemma upload_store_not_429:
  "upload_store env u n c = Inr r \<Longrightarrow> statusCode r \<noteq> 429"
  unfolding upload_store_def Let_def
  by (auto simp: and_then_def try_except_client_def resp_error_def resp_ok_def
           split: sum.splits option.splits exn.splits if_splits)

lemma tailor_store_not_429:
  "fst (tailor_store env u k h w) = Inr r \<Longrightarrow> statusCode r \<noteq> 429"
  unfolding tailor_store_def
  by (auto simp: and_then_def try_except_client_def resp_error_def resp_ok_def
           split: sum.splits option.splits exn.splits if_splits)

lemma tailor_generate_count [simp]:
  "tailor_generate (env \<lparr> count_docs_for_user := f \<rparr>) u d j i w = tailor_generate env u d j i w"
  by (simp add: tailor_generate_def tailor_store_def read_resume_text_def Let_def
           cong: sum.case_cong option.case_cong if_cong prod.case_cong)

lemma tailor_generate_not_429:
  "fst (tailor_generate env u d j i w) = Inr r \<Longrightarrow> statusCode r \<noteq> 429"
  unfolding tailor_generate_def Let_def
  by (auto simp: resp_error_def dest: tailor_store_not_429
           split: sum.splits option.splits if_splits prod.splits)

lemma upload_swallows:
  assumes "count_docs_for_user env (strip (get_or (userId body) ''demo'')) = Inl e"
  shows "handle_upload_resume env body
         = handle_upload_resume (env \<lparr> count_docs_for_user := (\<lambda>u. Inr 0) \<rparr>) body"
  using assms unfolding handle_upload_resume_def Let_def over_quota_cases
  by (simp add: and_then_def)

lemma upload_429_iff:
  "(\<exists>r. handle_upload_resume env body = Inr r \<and> statusCode r = 429)
   \<longleftrightarrow> (strip (get_or (userId body) ''demo'') \<noteq> []
        \<and> strip (get_or (filename body) (''resume-'' @ uuid4 env 0 @ ''.txt'')) \<noteq> []
        \<and> get_or (contentBase64 body) [] \<noteq> []
        \<and> ext_of (strip (get_or (filename body) (''resume-'' @ uuid4 env 0 @ ''.txt''))) \<in> set ALLOWED_EXTS
        \<and> (\<exists>n. count_docs_for_user env (strip (get_or (userId body) ''demo'')) = Inr n \<and> 10 \<le> n))"
  unfolding handle_upload_resume_def Let_def over_quota_cases
  by (auto simp: and_then_def resp_error_def dest: upload_store_not_429 split: sum.splits)

lemma tailor_swallows:
  assumes "count_docs_for_user env (strip (get_or (t_userId body) ''demo'')) = Inl e"
  shows "handle_tailor env body w
         = handle_tailor (env \<lparr> count_docs_for_user := (\<lambda>u. Inr 0) \<rparr>) body w"
  using assms unfolding handle_tailor_def Let_def over_quota_cases by simp

lemma tailor_429_iff:
  "(\<exists>r. fst (handle_tailor env body w) = Inr r \<and> statusCode r = 429)
   \<longleftrightarrow> (strip (get_or (t_userId body) ''demo'') \<noteq> []
        \<and> strip (get_or (t_documentId body) []) \<noteq> []
        \<and> strip (get_or (t_jobUrl body) []) \<noteq> []
        \<and> (\<exists>n. count_docs_for_user env (strip (get_or (t_userId body) ''demo'')) = Inr n \<and> 10 \<le> n))"
  unfolding handle_tailor_def Let_def over_quota_cases
  by (auto simp: resp_error_def dest: tailor_generate_not_429 split: sum.splits)


text \<open>
  Claim C9. In \<open>handle_upload_resume\<close> and in \<open>handle_tailor\<close>, when counting the owner's
  documents raises, the handler answers exactly as it does when the count is 0; and a
  response with status 429 is returned only when the count was computed and is at least
  \<open>MAX_DOCS_PER_USER\<close>.
\<close>

theorem quota_check_is_best_effort:
  "(count_docs_for_user env (strip (get_or (userId body) ''demo'')) = Inl e \<longrightarrow>
      handle_upload_resume env body
      = handle_upload_resume (env \<lparr> count_docs_for_user := (\<lambda>u. Inr 0) \<rparr>) body)
   \<and> (count_docs_for_user env (strip (get_or (t_userId tbody) ''demo'')) = Inl e \<longrightarrow>
      handle_tailor env tbody w
      = handle_tailor (env \<lparr> count_docs_for_user := (\<lambda>u. Inr 0) \<rparr>) tbody w)
   \<and> (handle_upload_resume env body = Inr r \<longrightarrow> statusCode r = 429 \<longrightarrow>
      (\<exists>n. count_docs_for_user env (strip (get_or (userId body) ''demo'')) = Inr n
           \<and> MAX_DOCS_PER_USER \<le> n))
   \<and> (fst (handle_tailor env tbody w) = Inr r \<longrightarrow> statusCode r = 429 \<longrightarrow>
      (\<exists>n. count_docs_for_user env (strip (get_or (t_userId tbody) ''demo'')) = Inr n
           \<and> MAX_DOCS_PER_USER \<le> n))"
proof -
  have a: "count_docs_for_user env (strip (get_or (userId body) ''demo'')) = Inl e \<longrightarrow>
      handle_upload_resume env body
      = handle_upload_resume (env \<lparr> count_docs_for_user := (\<lambda>u. Inr 0) \<rparr>) body"
    using upload_swallows by blast
  have b: "count_docs_for_user env (strip (get_or (t_userId tbody) ''demo'')) = Inl e \<longrightarrow>
      handle_tailor env tbody w
      = handle_tailor (env \<lparr> count_docs_for_user := (\<lambda>u. Inr 0) \<rparr>) tbody w"
    using tailor_swallows by blast
  have c: "handle_upload_resume env body = Inr r \<longrightarrow> statusCode r = 429 \<longrightarrow>
      (\<exists>n. count_docs_for_user env (strip (get_or (userId body) ''demo'')) = Inr n
           \<and> MAX_DOCS_PER_USER \<le> n)"
    using upload_429_iff [of env body] by (auto simp: MAX_DOCS_PER_USER_def)
  have d: "fst (handle_tailor env tbody w) = Inr r \<longrightarrow> statusCode r = 429 \<longrightarrow>
      (\<exists>n. count_docs_for_user env (strip (get_or (t_userId tbody) ''demo'')) = Inr n
           \<and> MAX_DOCS_PER_USER \<le> n)"
    using tailor_429_iff [of env tbody w] by (auto simp: MAX_DOCS_PER_USER_def)
  from a b c d show ?thesis by blast
qed

lemma demo_strings:
  "strip ''demo'' = ''demo''" "strip ''cv.txt'' = ''cv.txt''" "strip ''d1'' = ''d1''"
  "strip ''https://jobs.example/1'' = ''https://jobs.example/1''"
  "ext_of ''cv.txt'' = ''txt''"
  by code_simp+

lemma demo_upload_full:
  "handle_upload_resume (demo_env \<lparr> count_docs_for_user := (\<lambda>u. Inr 10) \<rparr>) demo_upload
   = Inr (resp_error 429 ''Doc limit reached (10).'')"
  by (simp add: handle_upload_resume_def demo_upload_def demo_env_def get_or_def demo_strings
        ALLOWED_EXTS_def over_quota_cases and_then_def)

lemma demo_tailor_full:
  "handle_tailor (demo_env \<lparr> count_docs_for_user := (\<lambda>u. Inr 10) \<rparr>) demo_tailor ((), [])
   = (Inr (resp_error 429 ''Document limit reached (10)''), ((), []))"
  by (simp add: handle_tailor_def demo_tailor_def demo_env_def get_or_def demo_strings
        over_quota_cases)

theorem quota_check_is_best_effort_witness:
  "count_docs_for_user demo_env ''demo'' = Inl (ClientError ''ProvisionedThroughputExceededException'')
   \<and> handle_upload_resume demo_env demo_upload
       = handle_upload_resume (demo_env \<lparr> count_docs_for_user := (\<lambda>u. Inr 0) \<rparr>) demo_upload
   \<and> handle_tailor demo_env demo_tailor ((), [])
       = handle_tailor (demo_env \<lparr> count_docs_for_user := (\<lambda>u. Inr 0) \<rparr>) demo_tailor ((), [])
   \<and> handle_upload_resume (demo_env \<lparr> count_docs_for_user := (\<lambda>u. Inr 10) \<rparr>) demo_upload
       = Inr (resp_error 429 ''Doc limit reached (10).'')
   \<and> fst (handle_tailor (demo_env \<lparr> count_docs_for_user := (\<lambda>u. Inr 10) \<rparr>) demo_tailor ((), []))
       = Inr (resp_error 429 ''Document limit reached (10)'')
   \<and> (\<exists>n. count_docs_for_user (demo_env \<lparr> count_docs_for_user := (\<lambda>u. Inr 10) \<rparr>) ''demo'' = Inr n
          \<and> MAX_DOCS_PER_USER \<le> n)"
proof -
  have c: "count_docs_for_user demo_env ''demo'' = Inl (ClientError ''ProvisionedThroughputExceededException'')"
    by (simp add: demo_env_def)
  have u: "strip (get_or (userId demo_upload) ''demo'') = ''demo''"
    by (simp add: demo_upload_def get_or_def demo_strings)
  have t: "strip (get_or (t_userId demo_tailor) ''demo'') = ''demo''"
    by (simp add: demo_tailor_def get_or_def demo_strings)
  have s: "statusCode (resp_error 429 m) = 429" for m
    by (simp add: resp_error_def)
  note q1 = quota_check_is_best_effort [of demo_env demo_upload
      "ClientError ''ProvisionedThroughputExceededException''" demo_tailor "((), [])"]
  note q2 = quota_check_is_best_effort [of "demo_env \<lparr> count_docs_for_user := (\<lambda>u. Inr 10) \<rparr>"
      demo_upload _ demo_tailor "((), [])" "resp_error 429 ''Doc limit reached (10).''"]
  from q1 c u t have "handle_upload_resume demo_env demo_upload
       = handle_upload_resume (demo_env \<lparr> count_docs_for_user := (\<lambda>u. Inr 0) \<rparr>) demo_upload"
    and "handle_tailor demo_env demo_tailor ((), [])
       = handle_tailor (demo_env \<lparr> count_docs_for_user := (\<lambda>u. Inr 0) \<rparr>) demo_tailor ((), [])"
    by simp_all
  moreover from q2 demo_upload_full u s
  have "\<exists>n. count_docs_for_user (demo_env \<lparr> count_docs_for_user := (\<lambda>u. Inr 10) \<rparr>) ''demo'' = Inr n
          \<and> MAX_DOCS_PER_USER \<le> n"
    by simp
  ultimately show ?thesis using c demo_upload_full demo_tailor_full by simp
qed

section \<open>One retry, adopted only when it verifies\<close>

lemma call_once_log: "call_once g p w = (h, w') \<Longrightarrow> snd w' = snd w @ [p]"
  by (auto simp: call_once_def http_chat_completion_def split: prod.splits sum.splits if_splits)

text \<open>
  Claim C1. With an API key configured, let \<open>html1\<close> be the output of the first
  \<open>_call_once\<close> and \<open>html2\<close> the output of a second one with the retry paragraph. When
  \<open>OPENAI_MAX_RETRIES > 0\<close> and \<open>html1\<close> fails the invariant check or the order check, the
  builder sends exactly these two requests and returns \<open>html2\<close> if it passes both checks
  and \<open>html1\<close> otherwise; in every other case it sends the first request only and returns
  \<open>html1\<close>. It returns a document in all cases.
\<close>

theorem retry_adopts_only_verified:
  assumes "api_key c = Some k" and "k \<noteq> []"
    and "call_once g (user_prompt (extract_contact_bits resume) (detect_section_order resume)
                        resume job interests) w = (html1, w1)"
    and "call_once g ((user_prompt (extract_contact_bits resume) (detect_section_order resume)
                        resume job interests) \<lparr> retry_paragraph := True \<rparr>) w1 = (html2, w2)"
  shows "ai_tailor_resume_html c g resume job interests w =
           (if 0 < max_retries c
               \<and> \<not> (ensure_invariants_present html1 (extract_contact_bits resume)
                    \<and> order_ok (detect_section_order resume) html1)
            then (if ensure_invariants_present html2 (extract_contact_bits resume)
                     \<and> order_ok (detect_section_order resume) html2
                  then html2 else html1, w2)
            else (html1, w1))
         \<and> snd w1 = snd w @ [user_prompt (extract_contact_bits resume) (detect_section_order resume)
                                resume job interests]
         \<and> snd w2 = snd w @ [user_prompt (extract_contact_bits resume) (detect_section_order resume)
                                resume job interests,
                              (user_prompt (extract_contact_bits resume) (detect_section_order resume)
                                resume job interests) \<lparr> retry_paragraph := True \<rparr>]"
proof -
  have l1: "snd w1 = snd w @ [user_prompt (extract_contact_bits resume) (detect_section_order resume)
                                resume job interests]"
    using assms(3) by (rule call_once_log)
  have l2: "snd w2 = snd w1 @ [(user_prompt (extract_contact_bits resume) (detect_section_order resume)
                                resume job interests) \<lparr> retry_paragraph := True \<rparr>]"
    using assms(4) by (rule call_once_log)
  have r: "ai_tailor_resume_html c g resume job interests w =
           (if 0 < max_retries c
               \<and> \<not> (ensure_invariants_present html1 (extract_contact_bits resume)
                    \<and> order_ok (detect_section_order resume) html1)
            then (if ensure_invariants_present html2 (extract_contact_bits resume)
                     \<and> order_ok (detect_section_order resume) html2
                  then html2 else html1, w2)
            else (html1, w1))"
    unfolding ai_tailor_resume_html_def Let_def using assms by auto
  from r l1 l2 show ?thesis by simp
qed

lemma demo_first:
  "call_once flaky_gen (user_prompt (extract_contact_bits demo_resume)
      (detect_section_order demo_resume) demo_resume ''job'' []) (0, [])
   = (post_process ''<!doctype html><style>li{color:#fff}</style><h1>Resume</h1>'',
      (1, [user_prompt (extract_contact_bits demo_resume)
             (detect_section_order demo_resume) demo_resume ''job'' []]))"
proof -
  have "strip '' <!doctype html><style>li{color:#fff}</style><h1>Resume</h1> '' = ''<!doctype html><style>li{color:#fff}</style><h1>Resume</h1>''" by code_simp
  then show ?thesis
    by (simp add: call_once_def http_chat_completion_def flaky_gen_def user_prompt_def)
qed

lemma demo_second:
  "call_once flaky_gen ((user_prompt (extract_contact_bits demo_resume)
      (detect_section_order demo_resume) demo_resume ''job'' []) \<lparr> retry_paragraph := True \<rparr>) (1, ps)
   = (post_process ''<!doctype html><style>li{color:#fff}</style><h1>Jane Doe</h1><h2>Experience</h2>Acme'',
      (2, ps @ [(user_prompt (extract_contact_bits demo_resume)
             (detect_section_order demo_resume) demo_resume ''job'' []) \<lparr> retry_paragraph := True \<rparr>]))"
proof -
  have "strip ''<!doctype html><style>li{color:#fff}</style><h1>Jane Doe</h1><h2>Experience</h2>Acme''
        = ''<!doctype html><style>li{color:#fff}</style><h1>Jane Doe</h1><h2>Experience</h2>Acme''" by code_simp
  then show ?thesis
    by (simp add: call_once_def http_chat_completion_def flaky_gen_def user_prompt_def)
qed

lemma demo_first_fails:
  "\<not> ensure_invariants_present (post_process ''<!doctype html><style>li{color:#fff}</style><h1>Resume</h1>'') (extract_contact_bits demo_resume)"
  by code_simp

lemma demo_second_passes:
  "ensure_invariants_present (post_process ''<!doctype html><style>li{color:#fff}</style><h1>Jane Doe</h1><h2>Experience</h2>Acme'')
     (extract_contact_bits demo_resume)
   \<and> order_ok (detect_section_order demo_resume)
        (post_process ''<!doctype html><style>li{color:#fff}</style><h1>Jane Doe</h1><h2>Experience</h2>Acme'')"
  by code_simp

theorem retry_adopts_only_verified_witness:
  "fst (ai_tailor_resume_html demo_cfg flaky_gen demo_resume ''job'' [] (0, []))
     = post_process ''<!doctype html><style>li{color:#fff}</style><h1>Jane Doe</h1><h2>Experience</h2>Acme''
   \<and> length (snd (snd (ai_tailor_resume_html demo_cfg flaky_gen demo_resume ''job'' [] (0, [])))) = 2"
  using retry_adopts_only_verified [of demo_cfg "''sk-test''" flaky_gen demo_resume "''job''" "[]"
          "(0, [])", OF _ _ demo_first demo_second]
        demo_first_fails demo_second_passes
  by (simp add: demo_cfg_def)

section \<open>Searching and replacing in strings\<close>

lemma find_from_ge: "find_from sub s i = - 1 \<or> int i \<le> find_from sub s i"
  by (induction s arbitrary: i) (auto, force)

lemma find_from_sublist: "find_from sub s i \<noteq> - 1 \<longleftrightarrow> sublist sub s"
proof (induction s arbitrary: i)
  case Nil
  then show ?case by simp
next
  case (Cons c cs)
  show ?case
  proof (cases "prefix sub (c # cs)")
    case True
    then show ?thesis by (auto simp: sublist_Cons_right)
  next
    case False
    then show ?thesis using Cons [of "Suc i"] by (simp add: sublist_Cons_right)
  qed
qed

lemma py_find_sublist: "py_find s sub \<noteq> - 1 \<longleftrightarrow> sublist sub s"
  by (simp add: py_find_def find_from_sublist)

lemma py_find_ge: "py_find s sub = - 1 \<or> 0 \<le> py_find s sub"
  using find_from_ge [of sub s 0] by (simp add: py_find_def)

lemma order_scan_sorted:
  "order_scan text_l pos hs \<longleftrightarrow>
     (\<forall>h \<in> set hs. sublist (order_key h) text_l)
     \<and> sorted (pos # map (\<lambda>h. py_find text_l (order_key h)) hs)"
proof (induction hs arbitrary: pos)
  case Nil
  then show ?case by simp
next
  case (Cons h hs)
  let ?idx = "py_find text_l (order_key h)"
  let ?rest = "map (\<lambda>h. py_find text_l (order_key h)) hs"
  have "order_scan text_l pos (h # hs) \<longleftrightarrow>
          ?idx \<noteq> - 1 \<and> pos \<le> ?idx \<and> order_scan text_l ?idx hs"
    by (auto simp: Let_def order_key_def)
  also have "\<dots> \<longleftrightarrow> sublist (order_key h) text_l \<and> pos \<le> ?idx
                 \<and> (\<forall>h \<in> set hs. sublist (order_key h) text_l) \<and> sorted (?idx # ?rest)"
    using Cons [of ?idx] py_find_sublist [of text_l "order_key h"] by blast
  also have "\<dots> \<longleftrightarrow> (\<forall>h \<in> set (h # hs). sublist (order_key h) text_l)
                 \<and> sorted (pos # ?idx # ?rest)"
    by (fastforce intro: order_trans)
  finally show ?case by simp
qed

lemma order_ok_sorted:
  "order_ok section_order html \<longleftrightarrow>
     (\<forall>h \<in> set section_order. sublist (order_key h) (lower html))
     \<and> sorted (map (\<lambda>h. py_find (lower html) (order_key h)) section_order)"
proof -
  have "- 1 \<le> py_find (lower html) (order_key h)" for h
    using py_find_ge [of "lower html" "order_key h"] by auto
  then show ?thesis
    by (auto simp: order_ok_def order_scan_sorted)
qed

lemma map_mono_sublist: "sublist xs ys \<Longrightarrow> sublist (map f xs) (map f ys)"
  unfolding sublist_def by (metis map_append)

lemma lower_append: "lower (xs @ ys) = lower xs @ lower ys"
  by (simp add: lower_def)

lemma py_replace_keeps_prefix:
  assumes "old \<noteq> []" and "apart (map f old) p" and "prefix p (map f s)"
  shows "prefix p (map f (py_replace old new s))"
  using assms(2,3)
proof (induction s arbitrary: p)
  case Nil
  then show ?case by simp
next
  case (Cons c cs)
  show ?case
  proof (cases p)
    case Nil
    then show ?thesis by simp
  next
    case (Cons q qs)
    have no: "\<not> prefix old (c # cs)"
    proof
      assume "prefix old (c # cs)"
      then have "prefix (map f old) (map f (c # cs))" by (rule map_mono_prefix)
      with Cons.prems(2) have "prefix (map f old) p \<or> prefix p (map f old)"
        using prefix_same_cases by blast
      with Cons.prems(1) Cons show False by auto
    qed
    from Cons.prems Cons have "apart (map f old) qs" "prefix qs (map f cs)" "q = f c"
      by auto
    with Cons.IH [of qs] no assms(1) Cons show ?thesis by simp
  qed
qed

lemma sublist_skip:
  assumes "apart sub a" and "sub \<noteq> []" and "sublist sub (a @ b)"
  shows "sublist sub b"
  using assms(1,3)
proof (induction a)
  case Nil
  then show ?case by simp
next
  case (Cons x a)
  from Cons.prems(2) have "prefix sub (x # a @ b) \<or> sublist sub (a @ b)"
    by (simp add: sublist_Cons_right)
  then show ?case
  proof
    assume "prefix sub (x # a @ b)"
    then have "prefix sub ((x # a) @ b)" by simp
    then have "prefix sub (x # a) \<or> prefix (x # a) sub"
      unfolding prefix_append by (auto simp: prefix_def)
    with Cons.prems(1) show ?thesis by auto
  next
    assume "sublist sub (a @ b)"
    with Cons show ?thesis by simp
  qed
qed

lemma py_replace_keeps_sublist:
  assumes "old \<noteq> []" and "sub \<noteq> []"
    and "apart (map f old) sub" and "apart sub (map f old)"
    and "sublist sub (map f s)"
  shows "sublist sub (map f (py_replace old new s))"
  using assms(5)
proof (induction "length s" arbitrary: s rule: less_induct)
  case less
  show ?case
  proof (cases s)
    case Nil
    with less.prems assms(2) show ?thesis by simp
  next
    case (Cons c cs)
    show ?thesis
    proof (cases "prefix old (c # cs)")
      case True
      then obtain rest where rest: "c # cs = old @ rest"
        by (auto simp: prefix_def)
      then have d: "drop (length old) (c # cs) = rest" by simp
      from rest assms(1) have shorter: "length rest < length s"
        using Cons by (metis length_append length_greater_0_conv less_add_same_cancel2)
      from less.prems Cons rest have "sublist sub (map f old @ map f rest)" by simp
      with assms(2,4) have "sublist sub (map f rest)"
        using sublist_skip [of sub "map f old" "map f rest"] by blast
      with less.hyps [OF shorter] have "sublist sub (map f (py_replace old new rest))" .
      then have "sublist sub (map f new @ map f (py_replace old new rest))"
        by (meson sublist_append_leftI sublist_order.order.trans)
      with True assms(1) Cons d show ?thesis by simp
    next
      case False
      from less.prems Cons have "prefix sub (map f (c # cs)) \<or> sublist sub (map f cs)"
        by (simp add: sublist_Cons_right)
      then show ?thesis
      proof
        assume "prefix sub (map f (c # cs))"
        with assms(1,3) have "prefix sub (map f (py_replace old new (c # cs)))"
          by (rule py_replace_keeps_prefix)
        with Cons show ?thesis by (simp only: prefix_imp_sublist)
      next
        assume "sublist sub (map f cs)"
        with less.hyps [of cs] Cons have "sublist sub (map f (py_replace old new cs))" by simp
        with False assms(1) Cons show ?thesis by (simp add: sublist_Cons_right)
      qed
    qed
  qed
qed

lemma py_replace_inserts:
  assumes "old \<noteq> []" and "sublist old s"
  shows "sublist new (py_replace old new s)"
  using assms(2)
proof (induction s)
  case Nil
  with assms(1) show ?case by simp
next
  case (Cons c cs)
  show ?case
  proof (cases "prefix old (c # cs)")
    case True
    with assms(1) show ?thesis by (simp del: Cons_prefix_Cons)
  next
    case False
    with Cons.prems have "sublist old cs" by (simp add: sublist_Cons_right)
    with Cons.IH False assms(1) show ?thesis by (simp add: sublist_Cons_right)
  qed
qed

lemma py_replace_absent:
  assumes "\<not> sublist old s"
  shows "py_replace old new s = s"
  using assms
proof (induction s)
  case Nil
  then show ?case by auto
next
  case (Cons c cs)
  then have "old \<noteq> []" "\<not> prefix old (c # cs)" "\<not> sublist old cs"
    by (auto simp: sublist_Cons_right)
  with Cons.IH show ?case by simp
qed

lemma py_replace_nonempty: "s \<noteq> [] \<Longrightarrow> new \<noteq> [] \<Longrightarrow> py_replace old new s \<noteq> []"
  by (cases s) auto

section \<open>What post-processing guarantees\<close>

lemma doctype_line_lower: "lower doctype_line = doctype_line"
  by code_simp

lemma doctype_line_starts: "prefix ''<!doctype'' (doctype_line @ s)"
  by (simp add: doctype_line_def)

lemma apart_facts:
  "apart ''<style'' doctype_line"
  "apart ''li{color'' doctype_line"
  "apart ''<head>'' doctype_line"
  "apart (map lower_char ''<head>'') ''<!doctype''"
  "apart ''<!doctype'' (map lower_char ''<head>'')"
  "apart (map lower_char ''</style>'') ''<!doctype''"
  "apart ''<!doctype'' (map lower_char ''</style>'')"
  "apart (map lower_char ''</style>'') ''<style''"
  "apart ''<style'' (map lower_char ''</style>'')"
  by code_simp+

lemma with_doctype_cases:
  "with_doctype html = (if sublist ''<!doctype'' (lower html) then html
                        else doctype_line @ html)"
  by (simp add: with_doctype_def py_in_def)

lemma with_doctype_has: "sublist ''<!doctype'' (lower (with_doctype html))"
proof (cases "sublist ''<!doctype'' (lower html)")
  case True
  then show ?thesis by (simp add: with_doctype_cases)
next
  case False
  have "prefix ''<!doctype'' (lower doctype_line @ lower html)"
    unfolding doctype_line_lower by (rule doctype_line_starts)
  then have "sublist ''<!doctype'' (lower (doctype_line @ html))"
    unfolding lower_append by (rule prefix_imp_sublist)
  with False show ?thesis by (simp add: with_doctype_cases)
qed

lemma with_doctype_starts:
  assumes "\<not> sublist ''<!doctype'' (lower html) \<or> prefix ''<!doctype'' (lower html)"
  shows "prefix ''<!doctype'' (lower (with_doctype html))"
proof (cases "sublist ''<!doctype'' (lower html)")
  case True
  with assms show ?thesis by (simp add: with_doctype_cases)
next
  case False
  have "prefix ''<!doctype'' (lower doctype_line @ lower html)"
    unfolding doctype_line_lower by (rule doctype_line_starts)
  then have "prefix ''<!doctype'' (lower (doctype_line @ html))"
    unfolding lower_append .
  with False show ?thesis by (simp add: with_doctype_cases)
qed

lemma with_doctype_style:
  "sublist ''<style'' (lower (with_doctype html)) \<longleftrightarrow> sublist ''<style'' (lower html)"
proof (cases "sublist ''<!doctype'' (lower html)")
  case True
  then show ?thesis by (simp add: with_doctype_cases)
next
  case False
  have "sublist ''<style'' (doctype_line @ lower html)
        \<longleftrightarrow> sublist ''<style'' (lower html)"
    using sublist_skip [OF apart_facts(1), of "lower html"]
    by (meson list.discI sublist_append_leftI sublist_order.order.trans)
  then have "sublist ''<style'' (lower (doctype_line @ html))
        \<longleftrightarrow> sublist ''<style'' (lower html)"
    by (simp only: lower_append doctype_line_lower)
  with False show ?thesis by (simp add: with_doctype_cases)
qed

lemma with_doctype_li:
  "sublist ''li{color'' (with_doctype html) \<longleftrightarrow> sublist ''li{color'' html"
proof (cases "sublist ''<!doctype'' (lower html)")
  case True
  then show ?thesis by (simp add: with_doctype_cases)
next
  case False
  have "sublist ''li{color'' (doctype_line @ html)
        \<longleftrightarrow> sublist ''li{color'' html"
    using sublist_skip [OF apart_facts(2), of html]
    by (meson list.discI sublist_append_leftI sublist_order.order.trans)
  with False show ?thesis by (simp add: with_doctype_cases)
qed

lemma with_doctype_head:
  "sublist ''<head>'' (with_doctype html) \<longleftrightarrow> sublist ''<head>'' html"
proof (cases "sublist ''<!doctype'' (lower html)")
  case True
  then show ?thesis by (simp add: with_doctype_cases)
next
  case False
  have "sublist ''<head>'' (doctype_line @ html)
        \<longleftrightarrow> sublist ''<head>'' html"
    using sublist_skip [OF apart_facts(3), of html]
    by (meson list.discI sublist_append_leftI sublist_order.order.trans)
  with False show ?thesis by (simp add: with_doctype_cases)
qed

lemma with_doctype_keeps: "sublist x html \<Longrightarrow> sublist x (with_doctype html)"
  by (simp add: with_doctype_cases) (meson sublist_append_leftI sublist_order.order.trans)

lemma with_doctype_nonempty: "with_doctype html \<noteq> []"
  using with_doctype_has [of html] by (auto simp: lower_def)

lemma css_has_style: "sublist ''<style'' (lower css)"
  by code_simp

lemma doc_open_lower: "lower doc_open = doc_open"
  by code_simp

lemma doc_open_starts: "prefix ''<!doctype'' doc_open"
  by code_simp

lemma post_process_cases:
  "post_process html =
     (if \<not> sublist ''<style'' (lower html) then
        (if sublist ''<head>'' html
         then py_replace ''<head>'' head_css (with_doctype html)
         else doc_open @ css @ ''</head><body>'' @ with_doctype html @ ''</body></html>'')
      else if \<not> sublist ''li{color'' html
      then py_replace ''</style>'' li_rule (with_doctype html)
      else with_doctype html)"
  using with_doctype_nonempty [of html]
  by (simp add: post_process_def Let_def py_in_def with_doctype_style with_doctype_li
        with_doctype_head)

lemma replace_head_keeps_doctype:
  "sublist ''<!doctype'' (lower s) \<Longrightarrow> sublist ''<!doctype'' (lower (py_replace ''<head>'' new s))"
  unfolding lower_def
  by (rule py_replace_keeps_sublist [OF _ _ apart_facts(4) apart_facts(5)]) simp_all

lemma replace_style_keeps_doctype:
  "sublist ''<!doctype'' (lower s) \<Longrightarrow> sublist ''<!doctype'' (lower (py_replace ''</style>'' new s))"
  unfolding lower_def
  by (rule py_replace_keeps_sublist [OF _ _ apart_facts(6) apart_facts(7)]) simp_all

lemma replace_style_keeps_style:
  "sublist ''<style'' (lower s) \<Longrightarrow> sublist ''<style'' (lower (py_replace ''</style>'' new s))"
  unfolding lower_def
  by (rule py_replace_keeps_sublist [OF _ _ apart_facts(8) apart_facts(9)]) simp_all

lemma replace_head_keeps_start:
  "prefix ''<!doctype'' (lower s) \<Longrightarrow> prefix ''<!doctype'' (lower (py_replace ''<head>'' new s))"
  unfolding lower_def
  by (rule py_replace_keeps_prefix [OF _ apart_facts(4)]) simp_all

lemma replace_style_keeps_start:
  "prefix ''<!doctype'' (lower s) \<Longrightarrow> prefix ''<!doctype'' (lower (py_replace ''</style>'' new s))"
  unfolding lower_def
  by (rule py_replace_keeps_prefix [OF _ apart_facts(6)]) simp_all

lemma wrapped_starts: "prefix ''<!doctype'' (lower (doc_open @ rest))"
  unfolding lower_append doc_open_lower
  using doc_open_starts by (rule prefix_prefix)

lemma wrapped_has_style: "sublist ''<style'' (lower (doc_open @ css @ rest))"
proof -
  have "sublist (lower css) (lower doc_open @ lower css @ lower rest)"
    by (rule sublist_appendI)
  with css_has_style show ?thesis
    unfolding lower_append by (rule sublist_order.order.trans)
qed

lemma head_css_has_style: "sublist ''<style'' (lower head_css)"
  by code_simp

lemma post_process_has_doctype: "sublist ''<!doctype'' (lower (post_process html))"
proof -
  note d = with_doctype_has [of html]
  consider (head) "\<not> sublist ''<style'' (lower html)" "sublist ''<head>'' html"
    | (wrap) "\<not> sublist ''<style'' (lower html)" "\<not> sublist ''<head>'' html"
    | (li) "sublist ''<style'' (lower html)" "\<not> sublist ''li{color'' html"
    | (same) "sublist ''<style'' (lower html)" "sublist ''li{color'' html"
    by blast
  then show ?thesis
  proof cases
    case head
    with replace_head_keeps_doctype [OF d] show ?thesis by (simp add: post_process_cases)
  next
    case wrap
    have "sublist ''<!doctype'' (lower (doc_open @ css @ ''</head><body>'' @ with_doctype html @ ''</body></html>''))"
      using wrapped_starts by (rule prefix_imp_sublist)
    with wrap show ?thesis by (simp add: post_process_cases)
  next
    case li
    with replace_style_keeps_doctype [OF d] show ?thesis
      by (simp add: post_process_cases)
  next
    case same
    with d show ?thesis by (simp add: post_process_cases)
  qed
qed

lemma post_process_starts:
  assumes "\<not> sublist ''<!doctype'' (lower html) \<or> prefix ''<!doctype'' (lower html)"
  shows "prefix ''<!doctype'' (lower (post_process html))"
proof -
  note d = with_doctype_starts [OF assms]
  consider (head) "\<not> sublist ''<style'' (lower html)" "sublist ''<head>'' html"
    | (wrap) "\<not> sublist ''<style'' (lower html)" "\<not> sublist ''<head>'' html"
    | (li) "sublist ''<style'' (lower html)" "\<not> sublist ''li{color'' html"
    | (same) "sublist ''<style'' (lower html)" "sublist ''li{color'' html"
    by blast
  then show ?thesis
  proof cases
    case head
    with replace_head_keeps_start [OF d] show ?thesis by (simp add: post_process_cases)
  next
    case wrap
    with wrapped_starts show ?thesis by (simp add: post_process_cases)
  next
    case li
    with replace_style_keeps_start [OF d] show ?thesis
      by (simp add: post_process_cases)
  next
    case same
    with d show ?thesis by (simp add: post_process_cases)
  qed
qed

lemma post_process_has_style: "sublist ''<style'' (lower (post_process html))"
proof -
  consider (head) "\<not> sublist ''<style'' (lower html)" "sublist ''<head>'' html"
    | (wrap) "\<not> sublist ''<style'' (lower html)" "\<not> sublist ''<head>'' html"
    | (li) "sublist ''<style'' (lower html)" "\<not> sublist ''li{color'' html"
    | (same) "sublist ''<style'' (lower html)" "sublist ''li{color'' html"
    by blast
  then show ?thesis
  proof cases
    case head
    from head(2) have "sublist ''<head>'' (with_doctype html)" by (rule with_doctype_keeps)
    then have "sublist head_css (py_replace ''<head>'' head_css (with_doctype html))"
      by (rule py_replace_inserts [rotated]) simp
    then have "sublist (lower head_css) (lower (py_replace ''<head>'' head_css (with_doctype html)))"
      unfolding lower_def by (rule map_mono_sublist)
    with head_css_has_style
    have "sublist ''<style'' (lower (py_replace ''<head>'' head_css (with_doctype html)))"
      by (rule sublist_order.order.trans)
    with head show ?thesis by (simp add: post_process_cases)
  next
    case wrap
    with wrapped_has_style show ?thesis by (simp add: post_process_cases)
  next
    case li
    from li(1) have "sublist ''<style'' (lower (with_doctype html))"
      by (simp add: with_doctype_style)
    from replace_style_keeps_style [OF this] li show ?thesis
      by (simp add: post_process_cases)
  next
    case same
    then show ?thesis by (simp add: post_process_cases with_doctype_style)
  qed
qed

lemma post_process_injects_rule:
  assumes "sublist ''<style'' (lower html)" and "\<not> sublist ''li{color'' html"
    and "sublist ''</style>'' html"
  shows "sublist li_rule (post_process html)"
proof -
  from assms(3) have "sublist ''</style>'' (with_doctype html)" by (rule with_doctype_keeps)
  then have "sublist li_rule (py_replace ''</style>'' li_rule (with_doctype html))"
    by (rule py_replace_inserts [rotated]) simp
  with assms(1,2) show ?thesis by (simp add: post_process_cases)
qed

lemma post_process_nonempty: "post_process html \<noteq> []"
  using post_process_has_doctype [of html] by (auto simp: lower_def)

text \<open>
  Claim C4, as amended. Post-processing prepends \<open><!doctype html>\<close> and a newline exactly
  when the lowercased text does not contain \<open><!doctype\<close>. Its output always contains a
  doctype declaration, and begins with one whenever the generated text held none or began
  with one. The output always contains a style block: with no \<open><style\<close> in the text, the
  default one is put after each \<open><head>\<close>, or, when there is no \<open><head>\<close>, the text is wrapped
  in a minimal document holding it. With a style block but no \<open>li{color\<close>, the rule is put
  before each \<open></style>\<close>, so it is present when the text has such a closing tag.
\<close>

theorem post_process_guarantees:
  "(\<not> sublist ''<!doctype'' (lower html) \<longrightarrow> with_doctype html = doctype_line @ html)
   \<and> (sublist ''<!doctype'' (lower html) \<longrightarrow> with_doctype html = html)
   \<and> sublist ''<!doctype'' (lower (post_process html))
   \<and> (\<not> sublist ''<!doctype'' (lower html) \<or> prefix ''<!doctype'' (lower html) \<longrightarrow>
        prefix ''<!doctype'' (lower (post_process html)))
   \<and> sublist ''<style'' (lower (post_process html))
   \<and> (\<not> sublist ''<style'' (lower html) \<and> sublist ''<head>'' html \<longrightarrow>
        post_process html = py_replace ''<head>'' head_css (with_doctype html)
        \<and> sublist head_css (post_process html))
   \<and> (\<not> sublist ''<style'' (lower html) \<and> \<not> sublist ''<head>'' html \<longrightarrow>
        post_process html
        = doc_open @ css @ ''</head><body>'' @ with_doctype html @ ''</body></html>'')
   \<and> (sublist ''<style'' (lower html) \<and> \<not> sublist ''li{color'' html
        \<and> sublist ''</style>'' html \<longrightarrow>
        post_process html = py_replace ''</style>'' li_rule (with_doctype html)
        \<and> sublist li_rule (post_process html))"
proof -
  have head: "sublist head_css (post_process html)"
    if "\<not> sublist ''<style'' (lower html)" "sublist ''<head>'' html"
  proof -
    from that(2) have "sublist ''<head>'' (with_doctype html)" by (rule with_doctype_keeps)
    then have "sublist head_css (py_replace ''<head>'' head_css (with_doctype html))"
      by (rule py_replace_inserts [rotated]) simp
    with that show ?thesis by (simp add: post_process_cases)
  qed
  show ?thesis
    using post_process_has_doctype [of html] post_process_starts [of html]
      post_process_has_style [of html] post_process_injects_rule [of html] head
    by (simp add: with_doctype_cases post_process_cases)
qed

lemma post_process_inputs:
  "\<not> sublist ''<!doctype'' (lower bare_html)"
  "\<not> sublist ''<style'' (lower head_html)"
  "sublist ''<head>'' head_html"
  "sublist ''<style'' (lower styled_html)"
  "\<not> sublist ''li{color'' styled_html"
  "sublist ''</style>'' styled_html"
  by code_simp+

theorem post_process_guarantees_witness:
  "prefix ''<!doctype'' (lower (post_process bare_html))
   \<and> sublist head_css (post_process head_html)
   \<and> sublist li_rule (post_process styled_html)"
proof -
  have "prefix ''<!doctype'' (lower (post_process bare_html))"
    using post_process_guarantees [of bare_html] post_process_inputs(1) by blast
  moreover have "sublist head_css (post_process head_html)"
    using post_process_guarantees [of head_html] post_process_inputs(2,3) by blast
  moreover have "sublist li_rule (post_process styled_html)"
    using post_process_guarantees [of styled_html] post_process_inputs(4,5,6) by blast
  ultimately show ?thesis by simp
qed

text \<open>
  A text that holds a doctype declaration after other characters, and a complete style
  block, is returned as it is: the output does not begin with the declaration.
\<close>

theorem post_process_doctype_not_first:
  "\<not> prefix ''<!doctype'' (lower (post_process chatty_html))"
  by code_simp

section \<open>What verification checks\<close>

lemma call_once_nonempty: "fst (call_once g p w) \<noteq> []"
  by (auto simp: call_once_def http_chat_completion_def error_page_def doc_open_def
        post_process_nonempty split: prod.splits sum.splits)

text \<open>
  Claim C2. The output of \<open>_call_once\<close> is never empty, and for a non-empty document both
  checks hold exactly when: a non-empty extracted name occurs in the document, ignoring
  case, and so does a non-empty extracted email; and, if a section order was detected,
  the key of every detected heading (normalized, lowercased, trailing colons stripped)
  occurs in the lowercased document and, for every two consecutive headings, the first
  occurrence of the first key is not after the first occurrence of the second.
\<close>

theorem verification_meaning:
  "fst (call_once g p w) \<noteq> []
   \<and> (html \<noteq> [] \<longrightarrow>
       (ensure_invariants_present html invariants \<and> order_ok section_order html \<longleftrightarrow>
         (name invariants \<noteq> [] \<longrightarrow> sublist (lower (name invariants)) (lower html))
         \<and> (email invariants \<noteq> [] \<longrightarrow> sublist (lower (email invariants)) (lower html))
         \<and> (section_order \<noteq> [] \<longrightarrow>
              (\<forall>h \<in> set section_order. sublist (order_key h) (lower html))
              \<and> (\<forall>i. Suc i < length section_order \<longrightarrow>
                     py_find (lower html) (order_key (section_order ! i))
                     \<le> py_find (lower html) (order_key (section_order ! Suc i))))))"
proof -
  have inv: "ensure_invariants_present html invariants \<longleftrightarrow>
     (name invariants \<noteq> [] \<longrightarrow> sublist (lower (name invariants)) (lower html))
     \<and> (email invariants \<noteq> [] \<longrightarrow> sublist (lower (email invariants)) (lower html))"
    if "html \<noteq> []"
    using that by (auto simp: ensure_invariants_present_def py_in_def Let_def)
  have ord: "order_ok section_order html \<longleftrightarrow>
     (section_order \<noteq> [] \<longrightarrow>
          (\<forall>h \<in> set section_order. sublist (order_key h) (lower html))
          \<and> (\<forall>i. Suc i < length section_order \<longrightarrow>
                 py_find (lower html) (order_key (section_order ! i))
                 \<le> py_find (lower html) (order_key (section_order ! Suc i))))"
    unfolding order_ok_sorted sorted_iff_nth_Suc by auto
  from inv ord call_once_nonempty [of g p w] show ?thesis by blast
qed

lemma demo_html_facts:
  "demo_html \<noteq> []"
  "sublist (lower (name demo_invariants)) (lower demo_html)"
  "sublist (lower (email demo_invariants)) (lower demo_html)"
  "py_find (lower demo_html) (order_key ''Experience'') = 37"
  "py_find (lower demo_html) (order_key ''Education:'') = 56"
  "name demo_invariants \<noteq> []" "email demo_invariants \<noteq> []"
  by code_simp+

theorem verification_meaning_witness:
  "ensure_invariants_present demo_html demo_invariants
   \<and> order_ok [''Experience'', ''Education:''] demo_html
   \<and> \<not> (ensure_invariants_present demo_html demo_invariants
        \<and> order_ok [''Education:'', ''Experience''] demo_html)"
proof -
  have f: "sublist (order_key ''Experience'') (lower demo_html)"
          "sublist (order_key ''Education:'') (lower demo_html)"
    using demo_html_facts(4,5) py_find_sublist by force+
  have "ensure_invariants_present demo_html demo_invariants
        \<and> order_ok [''Experience'', ''Education:''] demo_html"
    using verification_meaning [of "\<lambda>(st::unit) p. (Inr [], st)" "user_prompt demo_invariants [] [] [] []"
        "((), [])" demo_html demo_invariants "[''Experience'', ''Education:'']"]
      demo_html_facts f
    by (simp add: less_Suc_eq)
  moreover have "\<not> (ensure_invariants_present demo_html demo_invariants
        \<and> order_ok [''Education:'', ''Experience''] demo_html)"
    using verification_meaning [of "\<lambda>(st::unit) p. (Inr [], st)" "user_prompt demo_invariants [] [] [] []"
        "((), [])" demo_html demo_invariants "[''Education:'', ''Experience'']"]
      demo_html_facts f
    by (simp add: less_Suc_eq)
  ultimately show ?thesis by blast
qed

section \<open>The rendering without an API key\<close>

lemma py_replace_char:
  "py_replace [a] new s = concat (map (\<lambda>c. if c = a then new else [c]) s)"
  by (induction s) auto

lemma escape_angle_replace:
  "py_replace ''>'' ''&gt;'' (py_replace ''<'' ''&lt;'' s) = escape_angle s"
  unfolding py_replace_char escape_angle_def
  by (induction s) auto

lemma escape_angle_clean: "CHR ''<'' \<notin> set (escape_angle s) \<and> CHR ''>'' \<notin> set (escape_angle s)"
  by (induction s) (auto simp: escape_angle_def)

lemma fallback_header_starts: "prefix ''<!doctype html>'' (fallback_header invariants)"
proof -
  have "prefix ''<!doctype html>'' fallback_head" by code_simp
  then show ?thesis unfolding fallback_header_def by (rule prefix_prefix)
qed

lemma fallback_header_name:
  "sublist (''<h1>'' @ html_escape (if name invariants \<noteq> [] then name invariants else ''Your Name'')
            @ ''</h1>'')
     (fallback_header invariants)"
proof -
  have "suffix ''<h1>'' fallback_head" by code_simp
  then obtain a where a: "fallback_head = a @ ''<h1>''" by (auto simp: suffix_def)
  show ?thesis
    unfolding fallback_header_def a sublist_def
    by (rule exI [of _ a]) simp
qed

lemma fallback_header_contact:
  "sublist (html_escape (email invariants) @ '' '' @ html_escape (phone invariants))
     (fallback_header invariants)"
  unfolding fallback_header_def sublist_def
  by (rule exI [of _ "fallback_head
        @ html_escape (if name invariants \<noteq> [] then name invariants else ''Your Name'')
        @ ''</h1>'' @ [CHR 0x0A] @ ''<div class=\"muted\">''"]) simp

lemma fallback_header_links:
  "sublist (join ('' '' @ [CHR 0xE2, CHR 0x80, CHR 0xA2] @ '' '') (map html_escape (links invariants)))
     (fallback_header invariants)"
  unfolding fallback_header_def sublist_def
  by (rule exI [of _ "fallback_head
        @ html_escape (if name invariants \<noteq> [] then name invariants else ''Your Name'')
        @ ''</h1>'' @ [CHR 0x0A] @ ''<div class=\"muted\">''
        @ html_escape (email invariants) @ '' '' @ html_escape (phone invariants)
        @ ''</div>'' @ [CHR 0x0A] @ ''<p class=\"muted\">''"]) simp

text \<open>
  Claim C3. For every resume text, job text and interests string, when
  \<open>OPENAI_API_KEY\<close> is unset or empty the builder returns without sending any request (the
  world is unchanged) a document that begins with a doctype, holds in its header the
  escaped name (or \<open>Your Name\<close>), email, phone and links extracted from the resume, and
  holds in a \<open>pre\<close> block the resume text with every \<open><\<close> and \<open>>\<close> replaced by its entity
  and nothing else changed.
\<close>

theorem no_key_fallback:
  assumes "api_key c = None \<or> api_key c = Some []"
  shows "ai_tailor_resume_html c g resume job interests w
           = (fallback_html (extract_contact_bits resume) resume, w)
       \<and> fallback_html (extract_contact_bits resume) resume
           = fallback_header (extract_contact_bits resume)
             @ pre_open @ escape_angle resume @ pre_close
             @ [CHR 0x0A] @ ''</div>'' @ [CHR 0x0A] @ ''</html>''
       \<and> CHR ''<'' \<notin> set (escape_angle resume) \<and> CHR ''>'' \<notin> set (escape_angle resume)
       \<and> prefix ''<!doctype html>'' (fallback_header (extract_contact_bits resume))
       \<and> sublist (''<h1>'' @ html_escape (if name (extract_contact_bits resume) \<noteq> []
                                          then name (extract_contact_bits resume) else ''Your Name'')
                   @ ''</h1>'')
             (fallback_header (extract_contact_bits resume))
       \<and> sublist (html_escape (email (extract_contact_bits resume)) @ '' ''
                   @ html_escape (phone (extract_contact_bits resume)))
             (fallback_header (extract_contact_bits resume))
       \<and> sublist (join ('' '' @ [CHR 0xE2, CHR 0x80, CHR 0xA2] @ '' '')
                     (map html_escape (links (extract_contact_bits resume))))
             (fallback_header (extract_contact_bits resume))"
proof -
  have a: "ai_tailor_resume_html c g resume job interests w
           = (fallback_html (extract_contact_bits resume) resume, w)"
    using assms by (auto simp: ai_tailor_resume_html_def Let_def)
  have b: "fallback_html (extract_contact_bits resume) resume
           = fallback_header (extract_contact_bits resume)
             @ pre_open @ escape_angle resume @ pre_close
             @ [CHR 0x0A] @ ''</div>'' @ [CHR 0x0A] @ ''</html>''"
    by (simp add: fallback_html_def Let_def escape_angle_replace)
  from a b escape_angle_clean [of resume] fallback_header_starts fallback_header_name
    fallback_header_contact fallback_header_links
  show ?thesis by blast
qed

lemma angle_resume_escaped: "escape_angle angle_resume = ''Jane &lt;jd@x.io&gt;''"
  by code_simp

theorem no_key_fallback_witness:
  "snd (ai_tailor_resume_html keyless_cfg flaky_gen angle_resume ''job'' [] (0, [])) = (0, [])
   \<and> sublist (pre_open @ ''Jane &lt;jd@x.io&gt;'' @ pre_close)
        (fst (ai_tailor_resume_html keyless_cfg flaky_gen angle_resume ''job'' [] (0, [])))"
proof -
  have k: "api_key keyless_cfg = None \<or> api_key keyless_cfg = Some []"
    by (simp add: keyless_cfg_def)
  note t = no_key_fallback [OF k, of flaky_gen angle_resume "''job''" "[]" "(0, [])"]
  from t have s: "snd (ai_tailor_resume_html keyless_cfg flaky_gen angle_resume ''job'' [] (0, [])) = (0, [])"
    by simp
  from t have "fst (ai_tailor_resume_html keyless_cfg flaky_gen angle_resume ''job'' [] (0, []))
      = fallback_header (extract_contact_bits angle_resume)
        @ (pre_open @ ''Jane &lt;jd@x.io&gt;'' @ pre_close)
        @ [CHR 0x0A] @ ''</div>'' @ [CHR 0x0A] @ ''</html>''"
    by (simp add: angle_resume_escaped)
  then have "sublist (pre_open @ ''Jane &lt;jd@x.io&gt;'' @ pre_close)
        (fst (ai_tailor_resume_html keyless_cfg flaky_gen angle_resume ''job'' [] (0, [])))"
    by (simp only: sublist_appendI)
  with s show ?thesis by simp
qed

section \<open>Loops that deduplicate, and the leftmost match\<close>

lemma set_dedup_by: "set (dedup_by k xs) \<subseteq> set xs"
  by (induction k xs rule: dedup_by.induct) auto

lemma distinct_dedup_by: "distinct (map k (dedup_by k xs))"
proof (induction k xs rule: dedup_by.induct)
  case (1 k)
  then show ?case by simp
next
  case (2 k x xs)
  have "k x \<notin> k ` set (dedup_by k (filter (\<lambda>y. k y \<noteq> k x) xs))"
    using set_dedup_by [of k "filter (\<lambda>y. k y \<noteq> k x) xs"] by auto
  with 2 show ?case by simp
qed

lemma subseq_dedup_by: "subseq (dedup_by k xs) xs"
proof (induction k xs rule: dedup_by.induct)
  case (1 k)
  then show ?case by simp
next
  case (2 k x xs)
  have "subseq (filter (\<lambda>y. k y \<noteq> k x) xs) xs" by simp
  with 2 have "subseq (dedup_by k (filter (\<lambda>y. k y \<noteq> k x) xs)) xs"
    using subseq_order.trans by blast
  then show ?case by simp
qed

lemma dedup_by_distinct: "distinct (map k xs) \<Longrightarrow> dedup_by k xs = xs"
proof (induction xs)
  case Nil
  then show ?case by simp
next
  case (Cons x xs)
  then have "filter (\<lambda>y. k y \<noteq> k x) xs = xs"
    by (auto simp: filter_id_conv) (metis imageI)
  with Cons show ?case by simp
qed

lemma dedup_by_idem: "dedup_by k (dedup_by k xs) = dedup_by k xs"
  by (rule dedup_by_distinct) (rule distinct_dedup_by)

lemma dedup_loop_spec:
  "fst (dedup_loop hs (acc, seen))
   = acc @ dedup_by heading_key (filter (\<lambda>h. heading_key h \<notin> seen) hs)"
proof (induction hs arbitrary: acc seen)
  case Nil
  then show ?case by simp
next
  case (Cons h hs)
  show ?case
    by (simp add: Cons Let_def conj_commute)
qed

lemma order_loop_spec:
  "order_loop raws st = dedup_loop (map normalize_heading (filter looks_like_heading raws)) st"
proof (induction raws arbitrary: st)
  case Nil
  then show ?case by simp
next
  case (Cons raw raws)
  obtain order seen where st: "st = (order, seen)" by (cases st)
  show ?case unfolding st by (simp add: Cons Let_def)
qed

lemma uniq_loop_spec:
  "fst (uniq_loop us (acc, seen)) = acc @ dedup_by id (filter (\<lambda>u. u \<notin> seen) us)"
proof (induction us arbitrary: acc seen)
  case Nil
  then show ?case by simp
next
  case (Cons u us)
  show ?case
    by (simp add: Cons conj_commute)
qed

lemma detect_section_order_spec:
  "detect_section_order text
   = take 12 (dedup_by heading_key
                (map normalize_heading (filter looks_like_heading (splitlines text))))"
  by (simp add: detect_section_order_def Let_def order_loop_spec dedup_loop_spec dedup_by_idem)

lemma name_loop_find:
  "name_loop xs = (case find (\<lambda>l. re_search SECTION_KEYWORD_RE l = None) xs of
                     None \<Rightarrow> [] | Some l \<Rightarrow> l)"
  by (induction xs) auto

lemma first_match_Cons:
  "first_match r (c # cs)
   = (if match_here r (c # cs) \<noteq> None then match_here r (c # cs) else first_match r cs)"
proof -
  let ?Q = "\<lambda>i. match_here r (drop i cs) \<noteq> None"
  let ?P = "\<lambda>i. match_here r (drop i (c # cs)) \<noteq> None"
  have u: "[0..<Suc (Suc (length cs))] = 0 # map Suc [0..<Suc (length cs)]"
    by (subst upt_conv_Cons) (simp_all add: map_Suc_upt del: upt_Suc)
  have l: "filter ?P [0..<Suc (length (c # cs))]
           = (if match_here r (c # cs) \<noteq> None then [0] else [])
             @ map Suc (filter ?Q [0..<Suc (length cs)])"
    unfolding length_Cons u by (simp add: filter_map comp_def del: upt_Suc)
  show ?thesis
  proof (cases "match_here r (c # cs) = None")
    case False
    then show ?thesis unfolding first_match_def l by simp
  next
    case True
    show ?thesis
    proof (cases "filter ?Q [0..<Suc (length cs)]")
      case Nil
      with True show ?thesis unfolding first_match_def l by simp
    next
      case (Cons i rest)
      with True show ?thesis unfolding first_match_def l by simp
    qed
  qed
qed

lemma re_search_first: "re_search r s = first_match r s"
proof (induction s)
  case Nil
  then show ?case by (simp add: first_match_def)
next
  case (Cons c cs)
  then show ?case by (auto simp: first_match_Cons)
qed

section \<open>What the contact extractor returns\<close>

lemma rx_match_chr_i:
  "rx_match (chr_i a) s
   = (case s of [] \<Rightarrow> [] | c # cs \<Rightarrow> if lower_char c = lower_char a then [cs] else [])"
  by (simp add: chr_i_def)

lemma rx_match_lit_i:
  "rx_match (lit_i k) s = (if prefix (lower k) (lower s) then [drop (length k) s] else [])"
proof (induction k arbitrary: s rule: lit_i.induct)
  case 1
  then show ?case by (simp add: lower_def)
next
  case (2 a)
  then show ?case by (cases s) (auto simp: rx_match_chr_i lower_def)
next
  case (3 a b bs)
  then show ?case by (cases s) (auto simp: rx_match_chr_i lower_def)
qed

lemma keywords_lower: "map lower SECTION_KEYWORDS = SECTION_KEYWORDS"
  by code_simp

lemma keyword_here:
  "rx_match SECTION_KEYWORD_RE s \<noteq> [] \<longleftrightarrow> (\<exists>k \<in> set SECTION_KEYWORDS. prefix k (lower s))"
proof -
  have l: "lower ''education'' = ''education''" "lower ''experience'' = ''experience''"
    "lower ''projects'' = ''projects''" "lower ''skills'' = ''skills''"
    by code_simp+
  show ?thesis
    unfolding SECTION_KEYWORD_RE_def SECTION_KEYWORDS_def
    by (simp add: rx_match_lit_i l del: lit_i.simps)
qed

lemma match_here_None: "match_here r s = None \<longleftrightarrow> rx_match r s = []"
  by (simp add: match_here_def split: list.splits)

lemma keywords_nonempty: "k \<in> set SECTION_KEYWORDS \<Longrightarrow> k \<noteq> []"
  by (auto simp: SECTION_KEYWORDS_def)

lemma keyword_search: "re_search SECTION_KEYWORD_RE s \<noteq> None \<longleftrightarrow> has_keyword s"
proof (induction s)
  case Nil
  have "\<not> sublist k []" if "k \<in> set SECTION_KEYWORDS" for k
    using keywords_nonempty [OF that] by simp
  then show ?case
    using keyword_here [of "[]"]
    by (auto simp: has_keyword_def match_here_None lower_def)
next
  case (Cons c cs)
  have "re_search SECTION_KEYWORD_RE (c # cs) \<noteq> None
        \<longleftrightarrow> rx_match SECTION_KEYWORD_RE (c # cs) \<noteq> [] \<or> re_search SECTION_KEYWORD_RE cs \<noteq> None"
    using match_here_None [of SECTION_KEYWORD_RE "c # cs"] by (auto split: option.splits)
  also have "\<dots> \<longleftrightarrow> (\<exists>k \<in> set SECTION_KEYWORDS. prefix k (lower (c # cs))) \<or> has_keyword cs"
    unfolding keyword_here Cons ..
  also have "\<dots> \<longleftrightarrow> has_keyword (c # cs)"
    unfolding has_keyword_def lower_def by (auto simp: sublist_Cons_right)
  finally show ?case .
qed

lemma name_loop_spec:
  "name_loop xs = (case find (\<lambda>l. \<not> has_keyword l) xs of None \<Rightarrow> [] | Some l \<Rightarrow> l)"
proof -
  have "re_search SECTION_KEYWORD_RE l = None \<longleftrightarrow> \<not> has_keyword l" for l
    using keyword_search [of l] by blast
  then have "(\<lambda>l. re_search SECTION_KEYWORD_RE l = None) = (\<lambda>l. \<not> has_keyword l)"
    by (rule ext)
  then show ?thesis by (simp add: name_loop_find)
qed

text \<open>
  Claim C7. For every resume text: the name is the first of the first six non-blank,
  trimmed lines that contains none of \<open>education\<close>, \<open>experience\<close>, \<open>projects\<close>, \<open>skills\<close>
  (ignoring case), cut to 120 characters, and empty when there is no such line; the email
  is the match of the email pattern at the leftmost position that has one, and empty when
  there is none; the links are the matches of the link pattern, each kept at its first
  occurrence only, cut to five.
\<close>

theorem extract_contact_bits_fields:
  "name (extract_contact_bits text)
     = take 120 (case find (\<lambda>l. \<not> has_keyword l) (take 6 (nonempty_lines text)) of
                   None \<Rightarrow> [] | Some l \<Rightarrow> l)
   \<and> email (extract_contact_bits text)
     = (case first_match CONTACT_EMAIL_RE (strip text) of None \<Rightarrow> [] | Some m \<Rightarrow> m)
   \<and> links (extract_contact_bits text) = take 5 (dedup_by id (re_findall LINK_RE (strip text)))
   \<and> distinct (links (extract_contact_bits text))
   \<and> length (links (extract_contact_bits text)) \<le> 5"
proof -
  have l: "links (extract_contact_bits text) = take 5 (dedup_by id (re_findall LINK_RE (strip text)))"
    by (simp add: extract_contact_bits_def Let_def uniq_loop_spec)
  have "distinct (dedup_by id (re_findall LINK_RE (strip text)))"
    using distinct_dedup_by [of id] by simp
  then have d: "distinct (links (extract_contact_bits text))"
    unfolding l by (rule distinct_take)
  show ?thesis
    using l d
    by (simp add: extract_contact_bits_def Let_def name_loop_spec nonempty_lines_def
          re_search_first)
qed

lemma contact_resume_facts:
  "take 120 (case find (\<lambda>l. \<not> has_keyword l) (take 6 (nonempty_lines contact_resume)) of
               None \<Rightarrow> [] | Some l \<Rightarrow> l) = ''Jane Doe''"
  "first_match CONTACT_EMAIL_RE (strip contact_resume) = Some ''jd@x.io''"
  "take 5 (dedup_by id (re_findall LINK_RE (strip contact_resume))) = [''www.x.io'', ''WWW.x.io'']"
  by code_simp+

theorem extract_contact_bits_fields_witness:
  "name (extract_contact_bits contact_resume) = ''Jane Doe''
   \<and> email (extract_contact_bits contact_resume) = ''jd@x.io''
   \<and> links (extract_contact_bits contact_resume) = [''www.x.io'', ''WWW.x.io'']"
  using extract_contact_bits_fields [of contact_resume] contact_resume_facts
  by simp

section \<open>What section order detection returns\<close>

lemma dedup_by_append:
  "dedup_by k (xs @ ys) = dedup_by k xs @ dedup_by k (filter (\<lambda>y. k y \<notin> k ` set xs) ys)"
proof (induction k xs arbitrary: ys rule: dedup_by.induct)
  case (1 k)
  then show ?case by simp
next
  case (2 k x xs)
  have "filter (\<lambda>y. k y \<notin> k ` set (filter (\<lambda>y. k y \<noteq> k x) xs)) (filter (\<lambda>y. k y \<noteq> k x) ys)
        = filter (\<lambda>y. k y \<notin> k ` set (x # xs)) ys"
    unfolding filter_filter by (rule filter_cong) auto
  with 2 [of "filter (\<lambda>y. k y \<noteq> k x) ys"] show ?case by simp
qed

lemma dedup_by_first:
  assumes "k h \<notin> k ` set xs"
  shows "\<exists>rest. dedup_by k (xs @ h # ys) = dedup_by k xs @ h # rest"
  using assms by (simp add: dedup_by_append)

lemma dedup_by_keeps_order:
  assumes "k h1 \<notin> k ` set as" and "k h2 \<notin> k ` set (as @ h1 # bs)"
  shows "\<exists>B C. dedup_by k (as @ h1 # bs @ h2 # cs) = dedup_by k as @ h1 # B @ h2 # C"
proof -
  let ?F = "filter (\<lambda>y. k y \<noteq> k h1) \<circ> filter (\<lambda>y. k y \<notin> k ` set as)"
  from assms have keep: "k h2 \<noteq> k h1" "k h2 \<notin> k ` set as" "k h2 \<notin> k ` set (?F bs)"
    by auto
  have "dedup_by k (as @ h1 # bs @ h2 # cs)
        = dedup_by k as @ h1 # dedup_by k (?F bs @ h2 # ?F cs)"
    using assms(1) keep by (simp add: dedup_by_append)
  moreover obtain rest where "dedup_by k (?F bs @ h2 # ?F cs) = dedup_by k (?F bs) @ h2 # rest"
    using dedup_by_first [OF keep(3)] by blast
  ultimately show ?thesis by auto
qed

lemma looks_like_heading_iff:
  "looks_like_heading line \<longleftrightarrow>
     3 \<le> length (strip line) \<and> length (strip line) \<le> 80
     \<and> ((length (split_ws (drop_colon (strip line))) \<le> 6
          \<and> (isupper (drop_colon (strip line)) \<or> istitle (drop_colon (strip line))))
         \<or> lower (drop_colon (strip line)) \<in> set SECTION_CANON)"
  by (auto simp: looks_like_heading_def drop_colon_def Let_def)

text \<open>
  Claim C8. For every resume text, section order detection returns the lines classified
  as headings, normalized, each key (lowercased, colons stripped) kept at its first
  occurrence only, cut to 12 entries; a line is a heading exactly when its trimmed length
  is between 3 and 80 and, without one trailing colon, it either has at most six words
  and is uppercase or title-case, or is, lowercased, in the canonical list. The result
  has distinct keys and keeps the order of the text: when heading \<open>h1\<close> comes before
  heading \<open>h2\<close>, each at the first occurrence of its key, \<open>h1\<close> comes before \<open>h2\<close> in the
  deduplicated list whose first 12 entries are returned.
\<close>

theorem detect_section_order_meaning:
  "detect_section_order text
     = take 12 (dedup_by heading_key
                  (map normalize_heading (filter looks_like_heading (splitlines text))))
   \<and> (looks_like_heading line \<longleftrightarrow>
        3 \<le> length (strip line) \<and> length (strip line) \<le> 80
        \<and> ((length (split_ws (drop_colon (strip line))) \<le> 6
             \<and> (isupper (drop_colon (strip line)) \<or> istitle (drop_colon (strip line))))
            \<or> lower (drop_colon (strip line)) \<in> set SECTION_CANON))
   \<and> distinct (map heading_key (detect_section_order text))
   \<and> length (detect_section_order text) \<le> 12
   \<and> subseq (detect_section_order text)
        (map normalize_heading (filter looks_like_heading (splitlines text)))
   \<and> (map normalize_heading (filter looks_like_heading (splitlines text))
          = as @ h1 # bs @ h2 # cs
        \<longrightarrow> heading_key h1 \<notin> heading_key ` set as
        \<longrightarrow> heading_key h2 \<notin> heading_key ` set (as @ h1 # bs)
        \<longrightarrow> (\<exists>A B C. detect_section_order text = take 12 (A @ h1 # B @ h2 # C)))"
proof -
  let ?hs = "map normalize_heading (filter looks_like_heading (splitlines text))"
  note spec = detect_section_order_spec [of "text"]
  have d: "distinct (map heading_key (detect_section_order text))"
    unfolding spec
    by (simp only: take_map [symmetric] distinct_take distinct_dedup_by)
  have s: "subseq (detect_section_order text) ?hs"
  proof -
    have "subseq (take 12 (dedup_by heading_key ?hs)) (dedup_by heading_key ?hs)"
      by (metis append_take_drop_id list_emb_append_mono subseq_order.order_refl
            list_emb_Nil append_Nil2)
    then show ?thesis
      unfolding spec using subseq_dedup_by [of heading_key ?hs] subseq_order.trans by blast
  qed
  have o: "\<exists>A B C. detect_section_order text = take 12 (A @ h1 # B @ h2 # C)"
    if "?hs = as @ h1 # bs @ h2 # cs" "heading_key h1 \<notin> heading_key ` set as"
       "heading_key h2 \<notin> heading_key ` set (as @ h1 # bs)"
    using dedup_by_keeps_order [OF that(2,3), of cs] unfolding spec that(1) by metis
  from spec looks_like_heading_iff [of line] d s o show ?thesis
    by (simp add: spec)
qed

lemma sections_resume_facts:
  "map normalize_heading (filter looks_like_heading (splitlines sections_resume))
     = [] @ ''Experience'' # [] @ ''Education'' # [''EXPERIENCE'']"
  "heading_key ''Experience'' \<notin> heading_key ` set []"
  "heading_key ''Education'' \<notin> heading_key ` set ([] @ ''Experience'' # [])"
  "take 12 (dedup_by heading_key
              (map normalize_heading (filter looks_like_heading (splitlines sections_resume))))
     = [''Experience'', ''Education'']"
  by code_simp+

theorem detect_section_order_meaning_witness:
  "detect_section_order sections_resume = [''Experience'', ''Education'']
   \<and> (\<exists>A B C. detect_section_order sections_resume
                  = take 12 (A @ ''Experience'' # B @ ''Education'' # C))"
proof -
  note t = detect_section_order_meaning [of sections_resume _ "[]" "''Experience''" "[]"
             "''Education''" "[''EXPERIENCE'']"]
  from t sections_resume_facts(4)
  have a: "detect_section_order sections_resume = [''Experience'', ''Education'']"
    by simp
  from t sections_resume_facts(1,2,3)
  have b: "\<exists>A B C. detect_section_order sections_resume
                  = take 12 (A @ ''Experience'' # B @ ''Education'' # C)"
    by blast
  from a b show ?thesis by blast
qed

end
